theory Spec2Isabelle
  imports Complex_Main "HOL-Library.Multiset" "HOL-Library.List_Lexorder" "HOL-Library.AList"
begin

section \<open>Python values and string primitives\<close>

text \<open>
  A Python \<open>str\<close> is a sequence of Unicode code points, so a string is a list of
  code point numbers: \<open>len\<close> is \<^const>\<open>length\<close>, and the order of
  \<open>HOL-Library.List_Lexorder\<close> on such lists is the order Python's \<open>sorted\<close>
  uses on strings. Scores are exact rationals; the rounding of binary floating point is
  not part of the model.
\<close>

type_synonym ustring = "nat list"

definition ascii :: "string \<Rightarrow> ustring" where
  "ascii s = map of_char s"

text \<open>\<open>str.isspace\<close>: the code points Python treats as whitespace in \<open>split()\<close> and \<open>strip()\<close>.\<close>

definition py_isspace :: "nat \<Rightarrow> bool" where
  "py_isspace c \<longleftrightarrow>
     (9 \<le> c \<and> c \<le> 13) \<or> (28 \<le> c \<and> c \<le> 32) \<or> c = 133 \<or> c = 160 \<or> c = 5760 \<or>
     (8192 \<le> c \<and> c \<le> 8202) \<or> c = 8232 \<or> c = 8233 \<or> c = 8239 \<or> c = 8287 \<or> c = 12288"

text \<open>\<open>str.isdigit\<close> on the Basic Latin block (the digits \<open>0\<close> to \<open>9\<close>).\<close>

definition py_isdigit :: "nat \<Rightarrow> bool" where
  "py_isdigit c \<longleftrightarrow> 48 \<le> c \<and> c \<le> 57"

text \<open>
  \<open>str.lower\<close>, character by character, on the alphabets of the data: Basic Latin,
  Latin-1 and the Cyrillic block (\<open>U+0400\<close> to \<open>U+042F\<close>); every other code point is
  left as it is.
\<close>

definition lower_cp :: "nat \<Rightarrow> nat" where
  "lower_cp c =
     (if 65 \<le> c \<and> c \<le> 90 then c + 32
      else if 192 \<le> c \<and> c \<le> 222 \<and> c \<noteq> 215 then c + 32
      else if 1024 \<le> c \<and> c \<le> 1039 then c + 80
      else if 1040 \<le> c \<and> c \<le> 1071 then c + 32
      else c)"

definition py_lower :: "ustring \<Rightarrow> ustring" where
  "py_lower s = map lower_cp s"

definition py_strip :: "ustring \<Rightarrow> ustring" where
  "py_strip s = rev (dropWhile py_isspace (rev (dropWhile py_isspace s)))"

text \<open>
  \<open>s.split()\<close>: the maximal runs of non-whitespace characters, in order. The first
  argument of \<open>split_ws\<close> is the word read so far.
\<close>

fun split_ws :: "ustring \<Rightarrow> ustring \<Rightarrow> ustring list" where
  "split_ws w [] = (if w = [] then [] else [w])"
| "split_ws w (c # cs) =
     (if py_isspace c then (if w = [] then split_ws [] cs else w # split_ws [] cs)
      else split_ws (w @ [c]) cs)"

definition py_split :: "ustring \<Rightarrow> ustring list" where
  "py_split s = split_ws [] s"

text \<open>\<open>sep.join(words)\<close>.\<close>

fun py_join :: "ustring \<Rightarrow> ustring list \<Rightarrow> ustring" where
  "py_join sep [] = []"
| "py_join sep [w] = w"
| "py_join sep (w # ws) = w @ sep @ py_join sep ws"

text \<open>\<open>s.replace(old, new)\<close> for single-character \<open>old\<close>; \<open>new\<close> may be empty.\<close>

definition py_replace :: "nat \<Rightarrow> ustring \<Rightarrow> ustring \<Rightarrow> ustring" where
  "py_replace old new s = concat (map (\<lambda>c. if c = old then new else [c]) s)"

text \<open>\<open>s[-n:]\<close>: the last \<open>n\<close> characters, the whole string when it is shorter.\<close>

definition py_last_n :: "nat \<Rightarrow> ustring \<Rightarrow> ustring" where
  "py_last_n n s = drop (length s - n) s"

text \<open>Decimal rendering of a natural number, as \<open>str(n)\<close> and \<open>f"{n}"\<close> give it.\<close>

function str_nat :: "nat \<Rightarrow> ustring" where
  "str_nat n = (if n < 10 then [48 + n] else str_nat (n div 10) @ [48 + n mod 10])"
  by pat_completeness auto
termination
  by (relation "measure id") auto

declare str_nat.simps [simp del]

text \<open>
  The values a spreadsheet cell or a call argument can hold. A missing cell read by
  pandas is the float \<open>NaN\<close>; \<open>Infinity True\<close> is \<open>inf\<close> and \<open>Infinity False\<close> is \<open>-inf\<close>.
\<close>

datatype pyfloat = Finite rat | NaN | Infinity bool

datatype pyval = PNone | PBool bool | PInt int | PFloat pyfloat | PStr ustring

text \<open>Truth value of a Python object (\<open>not x\<close> is its negation).\<close>

fun truthy :: "pyval \<Rightarrow> bool" where
  "truthy PNone = False"
| "truthy (PBool b) = b"
| "truthy (PInt i) = (i \<noteq> 0)"
| "truthy (PFloat (Finite q)) = (q \<noteq> 0)"
| "truthy (PFloat _) = True"
| "truthy (PStr s) = (s \<noteq> [])"

fun isinstance_float :: "pyval \<Rightarrow> bool" where
  "isinstance_float (PFloat _) = True"
| "isinstance_float _ = False"

fun isinstance_str :: "pyval \<Rightarrow> bool" where
  "isinstance_str (PStr _) = True"
| "isinstance_str _ = False"

text \<open>
  \<open>str(x)\<close>. The repr of a float is not modelled: no function below renders one
  (\<open>normalize_phone\<close> returns before it would).
\<close>

fun py_str :: "pyval \<Rightarrow> ustring" where
  "py_str PNone = ascii ''None''"
| "py_str (PBool b) = (if b then ascii ''True'' else ascii ''False'')"
| "py_str (PInt i) = (if i < 0 then 45 # str_nat (nat (- i)) else str_nat (nat i))"
| "py_str (PFloat _) = []"
| "py_str (PStr s) = s"

text \<open>
  The exceptions the modelled code can raise. A function that can raise returns a sum:
  \<open>Inl\<close> the exception, \<open>Inr\<close> the value. \<open>foldl_err\<close> is a loop whose body can raise: the
  state after the last element, or the first exception.
\<close>

datatype error = AttributeError | TypeError | KeyError

fun foldl_err :: "('s \<Rightarrow> 'a \<Rightarrow> error + 's) \<Rightarrow> 's \<Rightarrow> 'a list \<Rightarrow> error + 's" where
  "foldl_err f s [] = Inr s"
| "foldl_err f s (x # xs) = (case f s x of Inl e \<Rightarrow> Inl e | Inr s' \<Rightarrow> foldl_err f s' xs)"

section \<open>Phone normalisation (\<open>verify_with_db.py\<close>, \<open>normalize_ocr.py\<close>)\<close>

text \<open>
  \<open>verify_with_db.normalize_phone\<close>: keep the digits; eleven digits starting with
  \<open>8\<close> have it replaced by \<open>7\<close>, ten digits get a leading \<open>7\<close>.
\<close>

definition normalize_phone :: "pyval \<Rightarrow> ustring" where
  "normalize_phone phone =
     (if \<not> truthy phone \<or> isinstance_float phone then []
      else
        let digits = filter py_isdigit (py_strip (py_str phone)) in
        if length digits = 11 \<and> take 1 digits = ascii ''8'' then ascii ''7'' @ drop 1 digits
        else if length digits = 10 then ascii ''7'' @ digits
        else digits)"

text \<open>\<open>normalize_ocr.normalize_phone\<close>: the same function, defined a second time there.\<close>

definition normalize_phone_ocr :: "pyval \<Rightarrow> ustring" where
  "normalize_phone_ocr phone =
     (if \<not> truthy phone \<or> isinstance_float phone then []
      else
        let digits = filter py_isdigit (py_strip (py_str phone)) in
        if length digits = 11 \<and> take 1 digits = ascii ''8'' then ascii ''7'' @ drop 1 digits
        else if length digits = 10 then ascii ''7'' @ digits
        else digits)"

section \<open>String similarity (\<open>difflib.SequenceMatcher\<close>)\<close>

text \<open>
  \<open>SequenceMatcher(None, a, b).ratio()\<close> of the Python standard library, which both
  \<open>fuzzy_match\<close> functions call. \<open>run_len pop xs ys\<close> is the length of the common
  prefix of \<open>xs\<close> and \<open>ys\<close> made of elements that are not popular; \<open>popular\<close> is the
  library's automatic junk heuristic (an element of a \<open>b\<close> of 200 or more elements
  that occurs more than \<open>len(b) // 100 + 1\<close> times starts no matching block).
\<close>

fun run_len :: "('a \<Rightarrow> bool) \<Rightarrow> 'a list \<Rightarrow> 'a list \<Rightarrow> nat" where
  "run_len pop (x # xs) (y # ys) = (if x = y \<and> \<not> pop y then Suc (run_len pop xs ys) else 0)"
| "run_len pop _ _ = 0"

definition popular :: "'a list \<Rightarrow> 'a \<Rightarrow> bool" where
  "popular b x \<longleftrightarrow> 200 \<le> length b \<and> length b div 100 + 1 < count_list b x"

definition candidates :: "'a list \<Rightarrow> 'a list \<Rightarrow> (nat \<times> nat) list" where
  "candidates a b = concat (map (\<lambda>i. map (\<lambda>j. (i, j)) [0..<length b]) [0..<length a])"

text \<open>
  The longest block wins; among the longest, the one that starts earliest in \<open>a\<close>, then
  earliest in \<open>b\<close>: a later candidate replaces the best one only when strictly longer.
\<close>

definition better ::
  "('a \<Rightarrow> bool) \<Rightarrow> 'a list \<Rightarrow> 'a list \<Rightarrow> nat \<times> nat \<times> nat \<Rightarrow> nat \<times> nat \<Rightarrow> nat \<times> nat \<times> nat" where
  "better pop a b best ij =
     (let k = run_len pop (drop (fst ij) a) (drop (snd ij) b)
      in if snd (snd best) < k then (fst ij, snd ij, k) else best)"

definition best_run :: "('a \<Rightarrow> bool) \<Rightarrow> 'a list \<Rightarrow> 'a list \<Rightarrow> nat \<times> nat \<times> nat" where
  "best_run pop a b = foldl (better pop a b) (0, 0, 0) (candidates a b)"

text \<open>
  \<open>find_longest_match\<close>: the best block, then extended to the left and to the right over
  equal elements (which can only be popular ones).
\<close>

definition find_longest_match :: "('a \<Rightarrow> bool) \<Rightarrow> 'a list \<Rightarrow> 'a list \<Rightarrow> nat \<times> nat \<times> nat" where
  "find_longest_match pop a b =
     (case best_run pop a b of (i, j, k) \<Rightarrow>
        let l = run_len (\<lambda>_. False) (rev (take i a)) (rev (take j b));
            r = run_len (\<lambda>_. False) (drop (i + k) a) (drop (j + k) b)
        in (i - l, j - l, l + k + r))"

lemma run_len_le: "run_len pop xs ys \<le> length xs \<and> run_len pop xs ys \<le> length ys"
  by (induction pop xs ys rule: run_len.induct) auto

lemma foldl_better_inv:
  assumes "P acc" and "\<And>acc ij. P acc \<Longrightarrow> ij \<in> set cs \<Longrightarrow> P (better pop a b acc ij)"
  shows "P (foldl (better pop a b) acc cs)"
  using assms by (induction cs arbitrary: acc) auto

lemma best_run_bounds:
  assumes "best_run pop a b = (i, j, k)"
  shows "i + k \<le> length a \<and> j + k \<le> length b"
proof -
  let ?P = "\<lambda>t. fst t + snd (snd t) \<le> length a \<and> fst (snd t) + snd (snd t) \<le> length b"
  have step: "?P (better pop a b acc ij)" if "?P acc" for acc ij
  proof -
    have "run_len pop (drop (fst ij) a) (drop (snd ij) b) \<le> length a - fst ij"
      "run_len pop (drop (fst ij) a) (drop (snd ij) b) \<le> length b - snd ij"
      using run_len_le [of pop "drop (fst ij) a" "drop (snd ij) b"] by auto
    moreover have "0 < run_len pop (drop (fst ij) a) (drop (snd ij) b)
        \<Longrightarrow> fst ij < length a \<and> snd ij < length b"
      using run_len_le [of pop "drop (fst ij) a" "drop (snd ij) b"] by auto
    ultimately show ?thesis using that
      by (auto simp: better_def Let_def)
  qed
  have "?P (foldl (better pop a b) (0, 0, 0) (candidates a b))"
    by (rule foldl_better_inv) (use step in auto)
  then show ?thesis using assms by (auto simp: best_run_def)
qed

lemma find_longest_match_bounds:
  assumes "find_longest_match pop a b = (i, j, k)"
  shows "i + k \<le> length a \<and> j + k \<le> length b"
proof -
  obtain i0 j0 k0 where b: "best_run pop a b = (i0, j0, k0)"
    by (cases "best_run pop a b") auto
  define l where "l = run_len (\<lambda>_. False) (rev (take i0 a)) (rev (take j0 b))"
  define r where "r = run_len (\<lambda>_. False) (drop (i0 + k0) a) (drop (j0 + k0) b)"
  have eq: "i = i0 - l" "j = j0 - l" "k = l + k0 + r"
    using assms b by (auto simp: find_longest_match_def Let_def l_def r_def)
  have bb: "i0 + k0 \<le> length a" "j0 + k0 \<le> length b"
    using best_run_bounds [OF b] by auto
  have l: "l \<le> i0" "l \<le> j0"
    using run_len_le [of "\<lambda>_. False" "rev (take i0 a)" "rev (take j0 b)"] by (auto simp: l_def)
  have r: "r \<le> length a - (i0 + k0)" "r \<le> length b - (j0 + k0)"
    using run_len_le [of "\<lambda>_. False" "drop (i0 + k0) a" "drop (j0 + k0) b"]
    by (auto simp: r_def)
  show ?thesis using eq bb l r by auto
qed

text \<open>
  \<open>get_matching_blocks\<close>, summed: the longest block, then the same on what lies to its
  left and to its right.
\<close>

function matching_size :: "('a \<Rightarrow> bool) \<Rightarrow> 'a list \<Rightarrow> 'a list \<Rightarrow> nat" where
  "matching_size pop a b =
     (case find_longest_match pop a b of (i, j, k) \<Rightarrow>
        if k = 0 then 0
        else k + matching_size pop (take i a) (take j b)
               + matching_size pop (drop (i + k) a) (drop (j + k) b))"
  by pat_completeness auto
termination
proof (relation "measure (\<lambda>(pop, a, b). length a)")
  show "wf (measure (\<lambda>(pop, a, b). length a))" by simp
next
  fix pop :: "'a \<Rightarrow> bool" and a b :: "'a list" and x i y j k
  assume "(i, y) = find_longest_match pop a b" "(j, k) = y" "k \<noteq> 0"
  then have "find_longest_match pop a b = (i, j, k)" by simp
  from find_longest_match_bounds [OF this] \<open>k \<noteq> 0\<close>
  show "((pop, take i a, take j b), pop, a, b) \<in> measure (\<lambda>(pop, a, b). length a)" by auto
next
  fix pop :: "'a \<Rightarrow> bool" and a b :: "'a list" and x i y j k
  assume "(i, y) = find_longest_match pop a b" "(j, k) = y" "k \<noteq> 0"
  then have "find_longest_match pop a b = (i, j, k)" by simp
  from find_longest_match_bounds [OF this] \<open>k \<noteq> 0\<close>
  show "((pop, drop (i + k) a, drop (j + k) b), pop, a, b) \<in> measure (\<lambda>(pop, a, b). length a)"
    by auto
qed

declare matching_size.simps [simp del]

definition sm_ratio :: "'a list \<Rightarrow> 'a list \<Rightarrow> rat" where
  "sm_ratio a b =
     (if length a + length b = 0 then 1
      else 2 * of_nat (matching_size (popular b) a b) / of_nat (length a + length b))"

section \<open>Name matching against the registry (\<open>verify_with_db.py\<close>)\<close>

text \<open>\<open>s.split(sep, 1)[1]\<close> for a \<open>sep\<close> that occurs in \<open>s\<close>: what follows its first occurrence.\<close>

definition partition_after :: "nat \<Rightarrow> ustring \<Rightarrow> ustring" where
  "partition_after sep s = drop 1 (dropWhile (\<lambda>c. c \<noteq> sep) s)"

text \<open>
  \<open>verify_with_db.normalize_name\<close>: strip, lower-case, drop a leading \<open>[id]\<close>, collapse
  whitespace, fold \<open>U+0451\<close> to \<open>U+0435\<close>. The words keep their order.
\<close>

definition normalize_name_db :: "pyval \<Rightarrow> ustring" where
  "normalize_name_db name =
     (if \<not> truthy name \<or> \<not> isinstance_str name then []
      else
        let n1 = py_lower (py_strip (py_str name));
            n2 = (if take 1 n1 = ascii ''['' \<and> 93 \<in> set n1
                  then py_strip (partition_after 93 n1) else n1);
            n3 = py_join (ascii '' '') (py_split n2)
        in py_replace 1105 [1077] n3)"

text \<open>\<open>verify_with_db.fuzzy_match\<close>.\<close>

definition fuzzy_match_db :: "ustring \<Rightarrow> ustring \<Rightarrow> rat" where
  "fuzzy_match_db s1 s2 = (if s1 = [] \<or> s2 = [] then 0 else sm_ratio s1 s2)"

text \<open>\<open>x in s\<close> on strings: \<open>x\<close> occurs in \<open>s\<close> as a substring.\<close>

definition py_in :: "ustring \<Rightarrow> ustring \<Rightarrow> bool" where
  "py_in x s \<longleftrightarrow> list_ex (\<lambda>i. take (length x) (drop i s) = x) [0..<Suc (length s)]"

text \<open>
  \<open>verify_with_db.match_names\<close>. The first argument is the configuration toggle
  \<open>SUBSTRING_WORD_BOUNDARY_ONLY\<close> (\<open>True\<close> when the configuration does not set it).
\<close>

definition match_names :: "bool \<Rightarrow> pyval \<Rightarrow> pyval \<Rightarrow> rat" where
  "match_names SUBSTRING_WORD_BOUNDARY_ONLY ocr_name db_name =
     (let n1 = normalize_name_db ocr_name;
          n2 = normalize_name_db db_name
      in if n1 = [] \<or> n2 = [] then 0
         else if n1 = n2 then 1
         else if (if SUBSTRING_WORD_BOUNDARY_ONLY
                  then set (py_split n1) \<subseteq> set (py_split n2) \<or>
                       set (py_split n2) \<subseteq> set (py_split n1)
                  else py_in n1 n2 \<or> py_in n2 n1)
         then 95 / 100
         else
           let parts1 = py_split n1; parts2 = py_split n2
           in if parts1 \<noteq> [] \<and> parts2 \<noteq> [] \<and> hd parts1 = hd parts2 \<and> 3 \<le> length (hd parts1)
              then max (fuzzy_match_db n1 n2 + 2 / 100) (fuzzy_match_db n1 n2)
              else fuzzy_match_db n1 n2)"

section \<open>The registry index and the best match (\<open>verify_with_db.py\<close>)\<close>

text \<open>
  A cell of the \<open>date\<close> column: \<open>NaT\<close>, or a pandas \<open>Timestamp\<close> in nanoseconds,
  time-zone aware or not. \<open>load_db\<close> parses the column with \<open>utc=True\<close>, which gives
  \<open>NaT\<close> and aware timestamps only.
\<close>

datatype timestamp = NaT | Naive int | Aware int

record visit =
  v_date :: timestamp
  v_doctor :: "ustring option"
  v_service :: "ustring option"

text \<open>
  An entry of the index. The keys \<open>total_visits\<close> and \<open>db_id\<close>, which the second loop of
  \<open>build_db_client_index\<close> adds to every entry, are fields from the start and hold \<open>0\<close>
  and the empty string until then. \<open>doctors\<close> is a Python set, later a list in the
  set's own order: a set here.
\<close>

record db_client =
  name_orig :: pyval
  phone :: ustring
  visits :: "visit list"
  doctors :: "ustring set"
  total_visits :: nat
  db_id :: ustring

type_synonym db_index = "(ustring \<times> db_client) list"

text \<open>
  A row of the registry frame, after \<open>load_db\<close>: the name cell, its normalised form, the
  normalised phone, the visit's date, the practitioner and the service (\<open>None\<close> is a
  missing cell).
\<close>

record db_row =
  r_name :: pyval
  r_name_norm :: ustring
  r_phone_norm :: ustring
  r_date :: timestamp
  r_doctor :: "ustring option"
  r_service :: "ustring option"

text \<open>
  The body of the first loop of \<open>build_db_client_index\<close>. The index is a Python dict:
  an association list in insertion order, where \<open>AList.update\<close> is assignment to a key
  and \<open>AList.map_entry\<close> changes the value under a key.
\<close>

definition index_row :: "db_index \<Rightarrow> db_row \<Rightarrow> db_index" where
  "index_row index row =
     (let name = r_name_norm row
      in if name = [] then index
         else
           let index1 =
                 (if name \<notin> set (map fst index)
                  then AList.update name
                         \<lparr>name_orig = r_name row, phone = r_phone_norm row, visits = [],
                            doctors = {}, total_visits = 0, db_id = []\<rparr> index
                  else index);
               index2 =
                 AList.map_entry name
                   (\<lambda>d. d\<lparr>visits := visits d @
                        [\<lparr>v_date = r_date row, v_doctor = r_doctor row, v_service = r_service row\<rparr>]\<rparr>)
                   index1
           in case r_doctor row of
                None \<Rightarrow> index2
              | Some doc \<Rightarrow> AList.map_entry name (\<lambda>d. d\<lparr>doctors := insert doc (doctors d)\<rparr>) index2)"

text \<open>
  The sort key of a visit: its date, or the time-zone naive \<open>pd.Timestamp.min\<close> for
  \<open>NaT\<close>. Two keys are compared with \<open><\<close>, which pandas refuses between a naive
  and an aware timestamp.
\<close>

definition TIMESTAMP_MIN :: int where
  "TIMESTAMP_MIN = - 9223372036854775807"

definition visit_key :: "visit \<Rightarrow> timestamp" where
  "visit_key v = (case v_date v of NaT \<Rightarrow> Naive TIMESTAMP_MIN | d \<Rightarrow> d)"

fun is_aware :: "timestamp \<Rightarrow> bool" where
  "is_aware (Aware t) = True"
| "is_aware _ = False"

fun nanoseconds :: "timestamp \<Rightarrow> int" where
  "nanoseconds (Aware t) = t"
| "nanoseconds (Naive t) = t"
| "nanoseconds NaT = TIMESTAMP_MIN - 1"

text \<open>
  \<open>visits.sort(key=...)\<close>: a stable sort by the keys. A sort of keys of both kinds has to
  compare a naive key with an aware one (nothing else orders the two kinds), and that
  comparison raises \<open>TypeError\<close>.
\<close>

definition sort_visits :: "visit list \<Rightarrow> error + visit list" where
  "sort_visits vs =
     (if (\<exists>v \<in> set vs. is_aware (visit_key v)) \<and> (\<exists>v \<in> set vs. \<not> is_aware (visit_key v))
      then Inl TypeError
      else Inr (sort_key (\<lambda>v. nanoseconds (visit_key v)) vs))"

text \<open>\<open>f"DB-{db_num:04d}"\<close>.\<close>

definition zfill :: "nat \<Rightarrow> ustring \<Rightarrow> ustring" where
  "zfill width s = replicate (width - length s) 48 @ s"

definition format_db_id :: "nat \<Rightarrow> ustring" where
  "format_db_id db_num = ascii ''DB-'' @ zfill 4 (str_nat db_num)"

text \<open>
  The body of the second loop, for the name \<open>snd item\<close> numbered \<open>fst item\<close>:
  \<open>index[name]\<close> is read, its visits are sorted, and the entry gets its count and its id.
\<close>

definition assign_id :: "db_index \<Rightarrow> nat \<times> ustring \<Rightarrow> error + db_index" where
  "assign_id index item =
     (case map_of index (snd item) of
        None \<Rightarrow> Inl KeyError
      | Some d \<Rightarrow>
          (case sort_visits (visits d) of
             Inl e \<Rightarrow> Inl e
           | Inr sorted_visits \<Rightarrow>
               Inr (AList.update (snd item)
                      (d\<lparr>visits := sorted_visits, total_visits := length sorted_visits,
                         db_id := format_db_id (fst item)\<rparr>) index)))"

definition build_db_client_index :: "db_row list \<Rightarrow> error + db_index" where
  "build_db_client_index rows =
     (let index = foldl index_row [] rows;
          sorted_names = sort (map fst index)
      in foldl_err assign_id index (List.enumerate 1 sorted_names))"

record db_match =
  m_db_id :: ustring
  db_name :: pyval
  db_name_norm :: ustring
  db_phone :: ustring
  score :: rat
  m_total_visits :: nat
  m_doctors :: "ustring set"
  m_visits :: "visit list"
  phone_match :: bool

text \<open>
  One iteration of the loop of \<open>find_best_match\<close>; the state is
  \<open>(best_match, best_score, phone_matched)\<close>.
\<close>

definition best_match_step ::
  "bool \<Rightarrow> pyval \<Rightarrow> ustring \<Rightarrow> rat \<Rightarrow> db_match option \<times> rat \<times> bool \<Rightarrow> ustring \<times> db_client
     \<Rightarrow> db_match option \<times> rat \<times> bool" where
  "best_match_step wb ocr_name ocr_ph threshold st item =
     (let data = snd item;
          name_score = match_names wb ocr_name (name_orig data);
          current_phone_match = (ocr_ph \<noteq> [] \<and> phone data \<noteq> [] \<and> ocr_ph = phone data);
          phone_bonus = (if current_phone_match then 20 / 100 else 0);
          total_score = min 1 (name_score + phone_bonus)
      in if fst (snd st) < total_score \<and> threshold \<le> total_score
         then (Some \<lparr>m_db_id = db_id data, db_name = name_orig data, db_name_norm = fst item,
                      db_phone = phone data, score = total_score,
                      m_total_visits = total_visits data, m_doctors = doctors data,
                      m_visits = visits data, phone_match = current_phone_match\<rparr>,
               total_score, current_phone_match)
         else st)"

definition find_best_match ::
  "bool \<Rightarrow> pyval \<Rightarrow> pyval \<Rightarrow> db_index \<Rightarrow> rat \<Rightarrow> db_match option" where
  "find_best_match wb ocr_name ocr_phone db_index threshold =
     fst (foldl (best_match_step wb ocr_name (normalize_phone ocr_phone) threshold)
            (None, 0, False) db_index)"

datatype status_db = STATUS_DB_FOUND | STATUS_DB_MAYBE | STATUS_DB_NOT_FOUND

text \<open>The value \<open>verify_clients\<close> uses when the configuration does not set the constant.\<close>

definition MIN_FIO_WORDS_FOR_CONFIDENT_MATCH :: nat where
  "MIN_FIO_WORDS_FOR_CONFIDENT_MATCH = 2"

text \<open>The status \<open>verify_clients\<close> gives a row, from the row's name and its best match.\<close>

definition status_bd :: "nat \<Rightarrow> ustring \<Rightarrow> db_match option \<Rightarrow> status_db" where
  "status_bd min_words ocr_name match =
     (case match of
        None \<Rightarrow> STATUS_DB_NOT_FOUND
      | Some m \<Rightarrow>
          let fio_words = length (py_split (py_strip ocr_name))
          in if phone_match m \<or> (min_words \<le> fio_words \<and> 85 / 100 \<le> score m)
             then STATUS_DB_FOUND else STATUS_DB_MAYBE)"

text \<open>
  The body of the loop of \<open>verify_clients\<close> for a row whose name and phone cells have been
  read: \<open>None\<close> when the row is skipped, else the status and the match.
\<close>

definition verify_row ::
  "bool \<Rightarrow> nat \<Rightarrow> ustring \<Rightarrow> ustring \<Rightarrow> db_index \<Rightarrow> rat
     \<Rightarrow> (status_db \<times> db_match option) option" where
  "verify_row wb min_words ocr_name ocr_phone db_index threshold =
     (if ocr_name = [] \<or> ocr_name = ascii ''nan'' then None
      else
        let match = find_best_match wb (PStr ocr_name) (PStr ocr_phone) db_index threshold
        in Some (status_bd min_words ocr_name match, match))"

text \<open>
  The ids as the specification describes them: the sorted names, numbered from 1. Then
  the ids the index holds, and the names of the registry.
\<close>

definition id_table :: "ustring list \<Rightarrow> (ustring \<times> ustring) list" where
  "id_table sorted_names = map (\<lambda>(i, name). (name, format_db_id i)) (List.enumerate 1 sorted_names)"

definition db_id_of :: "db_index \<Rightarrow> ustring \<Rightarrow> ustring option" where
  "db_id_of index name = map_option db_id (map_of index name)"

definition registry_names :: "db_row list \<Rightarrow> ustring set" where
  "registry_names rows = set (map r_name_norm rows) - {[]}"

text \<open>
  A name whose rows have dates of both kinds: an aware timestamp, and a naive one or
  \<open>NaT\<close>.
\<close>

definition mixed_dates :: "db_row list \<Rightarrow> bool" where
  "mixed_dates rows \<longleftrightarrow>
     (\<exists>r \<in> set rows. \<exists>r' \<in> set rows.
        r_name_norm r \<noteq> [] \<and> r_name_norm r' = r_name_norm r \<and>
        is_aware (r_date r) \<and> \<not> is_aware (r_date r'))"

text \<open>The dates of the visits of an entry are the dates of the rows of its name, in order.\<close>

definition dates_of :: "db_index \<Rightarrow> ustring \<Rightarrow> timestamp list" where
  "dates_of index name = (case map_of index name of None \<Rightarrow> [] | Some d \<Rightarrow> map v_date (visits d))"

definition mixed :: "timestamp list \<Rightarrow> bool" where
  "mixed ds \<longleftrightarrow> (\<exists>d \<in> set ds. is_aware d) \<and> (\<exists>d \<in> set ds. \<not> is_aware d)"

text \<open>
  Registry rows for the examples, with the aware timestamps of \<open>load_db\<close>: the same three
  rows in two orders, and two rows of one client of which one has no date.
\<close>

definition example_row :: "string \<Rightarrow> string \<Rightarrow> timestamp \<Rightarrow> db_row" where
  "example_row n p d = \<lparr>r_name = PStr (ascii n), r_name_norm = normalize_name_db (PStr (ascii n)),
     r_phone_norm = normalize_phone (PStr (ascii p)), r_date = d, r_doctor = None,
     r_service = None\<rparr>"

definition rows_a :: "db_row list" where
  "rows_a = [example_row ''Petrova Maria'' ''77772222222'' (Aware 5),
     example_row ''Ivanova Anna'' ''87771111111'' (Aware 3),
     example_row ''Petrova Maria'' ''77772222222'' (Aware 2)]"

definition rows_b :: "db_row list" where
  "rows_b = [example_row ''Ivanova Anna'' ''87771111111'' (Aware 3),
     example_row ''Petrova Maria'' ''77772222222'' (Aware 2),
     example_row ''Petrova Maria'' ''77772222222'' (Aware 5)]"

definition rows_nat :: "db_row list" where
  "rows_nat = [example_row ''Ivanova Anna'' ''87771111111'' (Aware 3),
     example_row ''Ivanova Anna'' ''87771111111'' NaT]"

text \<open>A one-entry registry index for the examples.\<close>

definition ex_client :: db_client where
  "ex_client = \<lparr>name_orig = PStr (ascii ''Abcdefghix''), phone = ascii ''77001234567'',
     visits = [], doctors = {}, total_visits = 0, db_id = ascii ''DB-0001''\<rparr>"

section \<open>Grouping pages by client (\<open>client_card_ocr.py\<close>)\<close>

text \<open>
  The payload of a page: what \<open>json.loads\<close> gives for the answer of the parsing service.
  A scalar is a \<^typ>\<open>pyval\<close>; a JSON object is a Python dict, its items in insertion
  order.
\<close>

datatype json = JVal pyval | JList "json list" | JDict "(ustring \<times> json) list"

abbreviation JStr :: "ustring \<Rightarrow> json" where
  "JStr s \<equiv> JVal (PStr s)"

abbreviation JNull :: json where
  "JNull \<equiv> JVal PNone"

fun json_truthy :: "json \<Rightarrow> bool" where
  "json_truthy (JVal v) = truthy v"
| "json_truthy (JList xs) = (xs \<noteq> [])"
| "json_truthy (JDict kvs) = (kvs \<noteq> [])"

text \<open>
  The receiver of a \<open>str\<close> method (\<open>.replace\<close>, \<open>.strip\<close>): a value that is not a
  \<open>str\<close> has no such attribute.
\<close>

definition as_str :: "json \<Rightarrow> error + ustring" where
  "as_str v = (case v of JVal (PStr s) \<Rightarrow> Inr s | _ \<Rightarrow> Inl AttributeError)"

text \<open>\<open>d.get(key, default)\<close> and \<open>d.setdefault(key, value)\<close> on the items of a dict.\<close>

definition dict_get :: "(ustring \<times> json) list \<Rightarrow> ustring \<Rightarrow> json \<Rightarrow> json" where
  "dict_get items key dflt = (case map_of items key of Some v \<Rightarrow> v | None \<Rightarrow> dflt)"

definition setdefault :: "ustring \<Rightarrow> json \<Rightarrow> (ustring \<times> json) list \<Rightarrow> (ustring \<times> json) list" where
  "setdefault key v items = (if key \<in> fst ` set items then items else items @ [(key, v)])"

text \<open>
  \<open>_pick_first\<close>. A path is the list of its keys (an alias given as a string is a path
  of one key). \<open>json_path\<close> is the inner loop: the value at the end of the path, if every
  step finds a dict with the key. The first value that is neither \<open>None\<close> nor the empty
  string is returned, unless it is a dict or a list, which is passed over; \<open>PNone\<close> is
  the \<open>None\<close> of no value found.
\<close>

fun json_path :: "json \<Rightarrow> ustring list \<Rightarrow> json option" where
  "json_path cur [] = Some cur"
| "json_path cur (key # path) =
     (case cur of
        JDict items \<Rightarrow> (case map_of items key of Some v \<Rightarrow> json_path v path | None \<Rightarrow> None)
      | _ \<Rightarrow> None)"

fun pick_first :: "json \<Rightarrow> ustring list list \<Rightarrow> pyval" where
  "pick_first data [] = PNone"
| "pick_first data (path # paths) =
     (case json_path data path of
        Some (JVal cur) \<Rightarrow> if cur \<noteq> PNone \<and> cur \<noteq> PStr [] then cur else pick_first data paths
      | _ \<Rightarrow> pick_first data paths)"

text \<open>
  \<open>_normalize_simple\<close>: \<open>str(value)\<close> with \<open>U+0451\<close> folded to \<open>U+0435\<close> and the
  whitespace collapsed. The rendering of a float by \<open>str\<close> is the parameter
  \<open>float_repr\<close>.
\<close>

definition str_of :: "(pyfloat \<Rightarrow> ustring) \<Rightarrow> pyval \<Rightarrow> ustring" where
  "str_of float_repr value = (case value of PFloat x \<Rightarrow> float_repr x | _ \<Rightarrow> py_str value)"

definition normalize_simple :: "(pyfloat \<Rightarrow> ustring) \<Rightarrow> pyval \<Rightarrow> ustring" where
  "normalize_simple float_repr value =
     (if value = PNone then []
      else let s = py_replace 1105 [1077] (str_of float_repr value)
           in py_join (ascii '' '') (py_split s))"

text \<open>The alias tables of \<open>collect_name_phone_iin\<close>; the Cyrillic keys as code points.\<close>

definition aliases_fio :: "ustring list list" where
  "aliases_fio =
     [[[1087, 1072, 1094, 1080, 1077, 1085, 1090], [1092, 1080, 1086]],
      [ascii ''patient_info'', ascii ''name''],
      [ascii ''fio''],
      [ascii ''patient_name''],
      [ascii ''document'', ascii ''patient_name''],
      [ascii ''client_name''],
      [ascii ''patient'']]"

definition aliases_phone :: "ustring list list" where
  "aliases_phone =
     [[ascii ''phone''], [ascii ''contact''], [ascii ''contacts''],
      [ascii ''patient_info'', ascii ''phone''],
      [[1087, 1072, 1094, 1080, 1077, 1085, 1090], [1090, 1077, 1083, 1077, 1092, 1086, 1085]]]"

definition aliases_iin :: "ustring list list" where
  "aliases_iin =
     [[[1087, 1072, 1094, 1080, 1077, 1085, 1090], [1080, 1080, 1085]],
      [ascii ''iin''],
      [ascii ''patient_info'', ascii ''iin'']]"

text \<open>
  \<open>collect_name_phone_iin\<close>: the items of the enriched payload. \<open>setdefault\<close> leaves a
  key that the payload already has as it is, whatever its value.
\<close>

definition collect_name_phone_iin :: "(pyfloat \<Rightarrow> ustring) \<Rightarrow> json \<Rightarrow> (ustring \<times> json) list" where
  "collect_name_phone_iin float_repr data =
     (case data of
        JDict items \<Rightarrow>
          let fio = pick_first data aliases_fio;
              phone = pick_first data aliases_phone;
              iin = pick_first data aliases_iin;
              enriched1 = (if truthy fio
                           then setdefault (ascii ''fio'') (JStr (normalize_simple float_repr fio)) items
                           else items);
              enriched2 = (if truthy phone
                           then setdefault (ascii ''phone'') (JStr (normalize_simple float_repr phone)) enriched1
                           else enriched1)
          in if truthy iin
             then setdefault (ascii ''iin'') (JStr (normalize_simple float_repr iin)) enriched2
             else enriched2
      | _ \<Rightarrow> [(ascii ''fio'', JStr []), (ascii ''phone'', JStr []), (ascii ''iin'', JStr [])])"

text \<open>\<open>client_card_ocr.normalize_name\<close>: lower-case, split into words, sort the words.\<close>

definition normalize_name_ocr :: "ustring \<Rightarrow> ustring" where
  "normalize_name_ocr name =
     (if name = [] then []
      else py_join (ascii '' '') (sort (py_split (py_lower (py_strip name)))))"

text \<open>
  The identifiers of a page, a page record, and a client cluster. \<open>page_type\<close>,
  \<open>ocr_text\<close>, \<open>filename\<close> and \<open>filepath\<close> are strings that the pipeline sets itself
  (\<open>normalize_claude_response\<close> and \<open>process_all_images\<close>); \<open>data\<close> is the parsed
  payload. A key that a record lacks is the empty string, or the empty dict for \<open>data\<close>:
  what every \<open>.get\<close> of the code defaults to. The identifiers are read from the payload
  as they are and can be of any JSON type.
\<close>

record identifiers =
  fio :: json
  ids_phone :: json
  ids_iin :: json

record page =
  filename :: ustring
  filepath :: ustring
  page_type :: ustring
  data :: json
  ocr_text :: ustring

record client =
  cl_name :: json
  cl_phone :: json
  cl_iin :: json
  pages :: "page list"

type_synonym clients = "(ustring \<times> client) list"

text \<open>
  The optional \<open>rapidfuzz\<close> backend: the two functions the code calls, with results
  between 0 and 100. \<open>None\<close> is the backend not installed.
\<close>

record rapidfuzz =
  token_sort_ratio :: "ustring \<Rightarrow> ustring \<Rightarrow> rat"
  ratio :: "ustring \<Rightarrow> ustring \<Rightarrow> rat"

text \<open>
  \<open>client_card_ocr.fuzzy_match\<close>. \<open>normalize_name\<close> is called on both names, the first
  one first, once both are known to be truthy; a truthy value that is not a \<open>str\<close> raises
  at \<open>name.strip()\<close>.
\<close>

definition fuzzy_match_ocr :: "rapidfuzz option \<Rightarrow> json \<Rightarrow> json \<Rightarrow> error + rat" where
  "fuzzy_match_ocr rf_fuzz name1 name2 =
     (if \<not> json_truthy name1 \<or> \<not> json_truthy name2 then Inr 0
      else
        case as_str name1 of
          Inl e \<Rightarrow> Inl e
        | Inr s1 \<Rightarrow>
            (case as_str name2 of
               Inl e \<Rightarrow> Inl e
             | Inr s2 \<Rightarrow>
                 let n1 = normalize_name_ocr s1; n2 = normalize_name_ocr s2
                 in if n1 = n2 then Inr 1
                    else case rf_fuzz of
                           Some rf \<Rightarrow> Inr (token_sort_ratio rf n1 n2 / 100)
                         | None \<Rightarrow> Inr (sm_ratio n1 n2)))"

text \<open>\<open>extract_identifiers\<close>.\<close>

definition extract_identifiers :: "(pyfloat \<Rightarrow> ustring) \<Rightarrow> page \<Rightarrow> identifiers" where
  "extract_identifiers float_repr result =
     (let items = collect_name_phone_iin float_repr (data result)
      in \<lparr>fio = dict_get items (ascii ''fio'') (JStr []),
          ids_phone = dict_get items (ascii ''phone'') (JStr []),
          ids_iin = dict_get items (ascii ''iin'') (JStr [])\<rparr>)"

text \<open>\<open>s.replace(" ", "")\<close>, and the same followed by the removal of \<open>-\<close> and \<open>+\<close>.\<close>

definition strip_spaces :: "ustring \<Rightarrow> ustring" where
  "strip_spaces s = py_replace 32 [] s"

definition clean_phone :: "ustring \<Rightarrow> ustring" where
  "clean_phone s = py_replace 43 [] (py_replace 45 [] (py_replace 32 [] s))"

text \<open>
  The three checks of \<open>find_matching_client\<close> on one cluster, each \<open>True\<close> when it
  returns the cluster: the national id, the phone, the name. \<open>or_else\<close> runs the second
  check only when the first neither returned nor raised.
\<close>

definition iin_check :: "ustring \<Rightarrow> client \<Rightarrow> error + bool" where
  "iin_check new_iin client_data =
     (if new_iin \<noteq> [] \<and> json_truthy (cl_iin client_data)
      then case as_str (cl_iin client_data) of
             Inl e \<Rightarrow> Inl e
           | Inr s \<Rightarrow> Inr (new_iin = strip_spaces s)
      else Inr False)"

definition phone_check :: "ustring \<Rightarrow> client \<Rightarrow> error + bool" where
  "phone_check new_phone client_data =
     (if new_phone \<noteq> [] \<and> 7 \<le> length new_phone \<and> json_truthy (cl_phone client_data)
      then case as_str (cl_phone client_data) of
             Inl e \<Rightarrow> Inl e
           | Inr s \<Rightarrow>
               let client_phone = clean_phone s
               in Inr (client_phone \<noteq> [] \<and> py_last_n 7 new_phone = py_last_n 7 client_phone)
      else Inr False)"

definition name_check :: "rapidfuzz option \<Rightarrow> json \<Rightarrow> client \<Rightarrow> rat \<Rightarrow> error + bool" where
  "name_check rf_fuzz new_fio client_data threshold =
     (if json_truthy new_fio \<and> json_truthy (cl_name client_data)
      then case fuzzy_match_ocr rf_fuzz new_fio (cl_name client_data) of
             Inl e \<Rightarrow> Inl e
           | Inr similarity \<Rightarrow> Inr (threshold \<le> similarity)
      else Inr False)"

definition or_else :: "error + bool \<Rightarrow> error + bool \<Rightarrow> error + bool" where
  "or_else a b = (case a of Inl e \<Rightarrow> Inl e | Inr found \<Rightarrow> if found then Inr True else b)"

text \<open>
  The loop of \<open>find_matching_client\<close> over the clusters in creation order, and the
  function: the phone and the national id of the page are cleaned first, which raises
  when one of them is not a \<open>str\<close>.
\<close>

fun scan_clients ::
  "rapidfuzz option \<Rightarrow> json \<Rightarrow> ustring \<Rightarrow> ustring \<Rightarrow> clients \<Rightarrow> rat \<Rightarrow> error + ustring option" where
  "scan_clients rf_fuzz new_fio new_phone new_iin [] threshold = Inr None"
| "scan_clients rf_fuzz new_fio new_phone new_iin ((client_key, client_data) # rest) threshold =
     (case or_else (iin_check new_iin client_data)
             (or_else (phone_check new_phone client_data)
                (name_check rf_fuzz new_fio client_data threshold)) of
        Inl e \<Rightarrow> Inl e
      | Inr found \<Rightarrow>
          if found then Inr (Some client_key)
          else scan_clients rf_fuzz new_fio new_phone new_iin rest threshold)"

definition find_matching_client ::
  "rapidfuzz option \<Rightarrow> identifiers \<Rightarrow> clients \<Rightarrow> rat \<Rightarrow> error + ustring option" where
  "find_matching_client rf_fuzz identifiers clients threshold =
     (case as_str (ids_phone identifiers) of
        Inl e \<Rightarrow> Inl e
      | Inr page_phone \<Rightarrow>
          (case as_str (ids_iin identifiers) of
             Inl e \<Rightarrow> Inl e
           | Inr page_iin \<Rightarrow>
               scan_clients rf_fuzz (fio identifiers) (clean_phone page_phone)
                 (strip_spaces page_iin) clients threshold))"

text \<open>The sort key of \<open>group_by_client\<close>: the position in \<open>priority_order\<close>, else 99.\<close>

definition priority_order :: "ustring list" where
  "priority_order = [ascii ''medical_card_front'', ascii ''complex_package'',
     ascii ''procedure_sheet'', ascii ''products_list'', ascii ''medical_card_inner'',
     ascii ''botox_record'']"

fun list_index :: "'a list \<Rightarrow> 'a \<Rightarrow> nat" where
  "list_index [] x = 0"
| "list_index (y # ys) x = (if y = x then 0 else Suc (list_index ys x))"

definition priority :: "page \<Rightarrow> nat" where
  "priority r =
     (if page_type r \<in> set priority_order then list_index priority_order (page_type r) else 99)"

text \<open>
  The placeholder names, as code points: \<open>NO_FIO\<close> for a cluster with a phone or an id
  but no name, \<open>CLIENT_UNDETERMINED\<close> for a cluster with no identifier at all.
\<close>

definition NO_FIO :: ustring where
  "NO_FIO = [40, 1073, 1077, 1079, 32, 1060, 1048, 1054, 41]"

definition CLIENT_UNDETERMINED :: ustring where
  "CLIENT_UNDETERMINED = [9888, 32, 1053, 1077, 32, 1091, 1076, 1072, 1083, 1086, 1089, 1100, 32,
     1086, 1087, 1088, 1077, 1076, 1077, 1083, 1080, 1090, 1100, 32, 1082, 1083, 1080, 1077, 1085,
     1090, 1072]"

text \<open>\<open>f"client_{n}"\<close>.\<close>

definition client_key :: "nat \<Rightarrow> ustring" where
  "client_key n = ascii ''client_'' @ str_nat n"

text \<open>
  A page joins a cluster (with the backfill of phone and id), or starts a new one.
\<close>

definition merge_page :: "identifiers \<Rightarrow> page \<Rightarrow> client \<Rightarrow> client" where
  "merge_page ids result c =
     c\<lparr>pages := pages c @ [result],
       cl_phone := (if json_truthy (ids_phone ids) \<and> \<not> json_truthy (cl_phone c)
                    then ids_phone ids else cl_phone c),
       cl_iin := (if json_truthy (ids_iin ids) \<and> \<not> json_truthy (cl_iin c)
                  then ids_iin ids else cl_iin c)\<rparr>"

definition new_client :: "identifiers \<Rightarrow> page \<Rightarrow> client" where
  "new_client ids result =
     \<lparr>cl_name = (if json_truthy (fio ids) then fio ids else JStr NO_FIO),
      cl_phone = ids_phone ids, cl_iin = ids_iin ids, pages = [result]\<rparr>"

text \<open>
  The body of the main loop of \<open>group_by_client\<close>; the state is \<open>(clients, unmatched)\<close>.
  \<open>clients\<close> is a Python dict, an association list in insertion order.
\<close>

definition group_step ::
  "(pyfloat \<Rightarrow> ustring) \<Rightarrow> rapidfuzz option \<Rightarrow> rat \<Rightarrow> clients \<times> page list \<Rightarrow> page
     \<Rightarrow> error + clients \<times> page list" where
  "group_step float_repr rf_fuzz threshold st result =
     (let clients = fst st; unmatched = snd st
      in if page_type result = ascii ''error'' then Inr (clients, unmatched @ [result])
         else
           let ids = extract_identifiers float_repr result
           in if \<not> json_truthy (fio ids) \<and> \<not> json_truthy (ids_phone ids) \<and>
                 \<not> json_truthy (ids_iin ids)
              then Inr (clients, unmatched @ [result])
              else
                case find_matching_client rf_fuzz ids clients threshold of
                  Inl e \<Rightarrow> Inl e
                | Inr (Some match_key) \<Rightarrow>
                    if match_key \<noteq> []
                    then Inr (AList.map_entry match_key (merge_page ids result) clients, unmatched)
                    else Inr (AList.update (client_key (length clients + 1))
                                (new_client ids result) clients, unmatched)
                | Inr None \<Rightarrow>
                    Inr (AList.update (client_key (length clients + 1)) (new_client ids result)
                           clients, unmatched))"

text \<open>
  The second pass over the unmatched pages; the state is \<open>(clients, remaining)\<close>.
\<close>

definition attach_step ::
  "(pyfloat \<Rightarrow> ustring) \<Rightarrow> rapidfuzz option \<Rightarrow> rat \<Rightarrow> clients \<times> page list \<Rightarrow> page
     \<Rightarrow> error + clients \<times> page list" where
  "attach_step float_repr rf_fuzz threshold st page =
     (let clients = fst st; remaining = snd st;
          ids = extract_identifiers float_repr page
      in case (if json_truthy (fio ids) \<or> json_truthy (ids_phone ids) \<or> json_truthy (ids_iin ids)
               then find_matching_client rf_fuzz ids clients threshold else Inr None) of
           Inl e \<Rightarrow> Inl e
         | Inr (Some match_key) \<Rightarrow>
             if match_key \<noteq> []
             then Inr (AList.map_entry match_key (\<lambda>c. c\<lparr>pages := pages c @ [page]\<rparr>) clients,
                       remaining)
             else Inr (clients, remaining @ [page])
         | Inr None \<Rightarrow> Inr (clients, remaining @ [page]))"

text \<open>
  What \<open>group_by_client\<close> does with the unmatched pages after the main loop: a cluster
  of their own when there is no cluster yet, else the second pass and the first cluster
  for what remains.
\<close>

definition place_unmatched ::
  "(pyfloat \<Rightarrow> ustring) \<Rightarrow> rapidfuzz option \<Rightarrow> rat \<Rightarrow> clients \<Rightarrow> page list \<Rightarrow> error + clients" where
  "place_unmatched float_repr rf_fuzz threshold clients unmatched =
     (case unmatched of
        [] \<Rightarrow> Inr clients
      | first # _ \<Rightarrow>
          (case filter (\<lambda>k. k \<noteq> ascii ''_unmatched'') (map fst clients) of
             [] \<Rightarrow>
               let any_ids = extract_identifiers float_repr first;
                   name = (if json_truthy (fio any_ids) then fio any_ids
                           else if json_truthy (ids_phone any_ids) \<or> json_truthy (ids_iin any_ids)
                           then JStr NO_FIO
                           else JStr CLIENT_UNDETERMINED)
               in Inr (AList.update (ascii ''client_1'')
                         \<lparr>cl_name = name, cl_phone = ids_phone any_ids, cl_iin = ids_iin any_ids,
                          pages = unmatched\<rparr> clients)
           | primary_key # _ \<Rightarrow>
               (case foldl_err (attach_step float_repr rf_fuzz threshold) (clients, []) unmatched of
                  Inl e \<Rightarrow> Inl e
                | Inr st \<Rightarrow>
                    if snd st = [] then Inr (fst st)
                    else Inr (AList.map_entry primary_key (\<lambda>c. c\<lparr>pages := pages c @ snd st\<rparr>)
                                (fst st)))))"

definition group_by_client ::
  "(pyfloat \<Rightarrow> ustring) \<Rightarrow> rapidfuzz option \<Rightarrow> rat \<Rightarrow> page list \<Rightarrow> error + clients" where
  "group_by_client float_repr rf_fuzz threshold results =
     (let sorted_results = sort_key priority results
      in case foldl_err (group_step float_repr rf_fuzz threshold) ([], []) sorted_results of
           Inl e \<Rightarrow> Inl e
         | Inr st \<Rightarrow> place_unmatched float_repr rf_fuzz threshold (fst st) (snd st))"

text \<open>The pages of all clusters, cluster after cluster.\<close>

definition all_pages :: "clients \<Rightarrow> page list" where
  "all_pages clients = concat (map (\<lambda>kc. pages (snd kc)) clients)"

text \<open>
  Payloads, identifiers and clusters whose name, phone and national id are strings. A
  payload qualifies when each of the keys \<open>fio\<close>, \<open>phone\<close> and \<open>iin\<close> is absent from
  its top level or holds a string.
\<close>

fun is_str :: "json \<Rightarrow> bool" where
  "is_str (JVal (PStr s)) = True"
| "is_str _ = False"

definition str_payload :: "json \<Rightarrow> bool" where
  "str_payload d \<longleftrightarrow>
     (case d of
        JDict items \<Rightarrow>
          (\<forall>key \<in> {ascii ''fio'', ascii ''phone'', ascii ''iin''}.
             case map_of items key of None \<Rightarrow> True | Some v \<Rightarrow> is_str v)
      | _ \<Rightarrow> True)"

definition str_ids :: "identifiers \<Rightarrow> bool" where
  "str_ids ids \<longleftrightarrow> is_str (fio ids) \<and> is_str (ids_phone ids) \<and> is_str (ids_iin ids)"

definition str_client :: "client \<Rightarrow> bool" where
  "str_client c \<longleftrightarrow> is_str (cl_name c) \<and> is_str (cl_phone c) \<and> is_str (cl_iin c)"

text \<open>The keys of the clusters are \<open>client_1\<close>, \<open>client_2\<close>, ... in order.\<close>

definition keys_ok :: "clients \<Rightarrow> bool" where
  "keys_ok clients \<longleftrightarrow> map fst clients = map client_key [1..<Suc (length clients)]"

text \<open>The pages a state of the main loop holds: those of the clusters and the unmatched ones.\<close>

definition kept :: "clients \<times> page list \<Rightarrow> page multiset" where
  "kept st = mset (all_pages (fst st)) + mset (snd st)"

text \<open>
  Pages and clusters for the examples: the front of a card, a second photo of it, a
  procedure sheet that names the client in the other word order under another key, a page
  with no identifier, and a front page whose payload has \<open>null\<close> for the phone.
\<close>

definition example_page :: "string \<Rightarrow> string \<Rightarrow> (ustring \<times> json) list \<Rightarrow> string \<Rightarrow> page" where
  "example_page file ptype payload text =
     \<lparr>filename = ascii file, filepath = ascii file, page_type = ascii ptype,
      data = JDict payload, ocr_text = ascii text\<rparr>"

definition front :: page where
  "front = example_page ''front.jpg'' ''medical_card_front''
     [(ascii ''fio'', JStr (ascii ''Ivanova Anna'')), (ascii ''phone'', JStr (ascii ''+7 700 000 00 00''))]
     ''card''"

definition front2 :: page where
  "front2 = example_page ''front2.jpg'' ''medical_card_front''
     [(ascii ''fio'', JStr (ascii ''Ivanova Anna'')), (ascii ''phone'', JStr (ascii ''+7 700 000 00 00''))]
     ''card''"

definition proc :: page where
  "proc = example_page ''proc.jpg'' ''procedure_sheet''
     [(ascii ''patient_name'', JStr (ascii ''Anna  Ivanova'')), (ascii ''procedures'', JList [])]
     ''procedures''"

definition blank :: page where
  "blank = example_page ''blank.jpg'' ''unknown'' [] ''scribble''"

definition null_phone :: page where
  "null_phone = example_page ''card.jpg'' ''medical_card_front''
     [(ascii ''fio'', JStr (ascii ''Ivanova Anna'')), (ascii ''phone'', JNull),
      (ascii ''iin'', JStr (ascii ''900101300123''))]
     ''card''"

definition example_batch :: "page list" where
  "example_batch = [proc, blank, front, front2]"

definition anna :: "page list \<Rightarrow> client" where
  "anna ps = \<lparr>cl_name = JStr (ascii ''Ivanova Anna''), cl_phone = JStr (ascii ''+7 700 000 00 00''),
     cl_iin = JStr [], pages = ps\<rparr>"

definition example_client :: "string \<Rightarrow> string \<Rightarrow> string \<Rightarrow> client" where
  "example_client name ph nid =
     \<lparr>cl_name = JStr (ascii name), cl_phone = JStr (ascii ph), cl_iin = JStr (ascii nid), pages = []\<rparr>"

definition page_ids :: "string \<Rightarrow> string \<Rightarrow> string \<Rightarrow> identifiers" where
  "page_ids name ph nid = \<lparr>fio = JStr (ascii name), ids_phone = JStr (ascii ph), ids_iin = JStr (ascii nid)\<rparr>"

section \<open>Duplicate pages (\<open>client_card_ocr.py\<close>)\<close>

text \<open>
  \<open>json.dumps(payload, sort_keys=True, ensure_ascii=False)\<close>: the text of a payload with
  the keys of every dict in sorted order. A string is quoted, with \<open>"\<close>, \<open>\\\<close> and the
  control characters below \<open>U+0020\<close> escaped. The rendering of a finite float is the
  parameter \<open>float_repr\<close>, as for \<open>str\<close>.
\<close>

definition hex_digit :: "nat \<Rightarrow> nat" where
  "hex_digit d = (if d < 10 then 48 + d else 87 + d)"

definition json_escape :: "nat \<Rightarrow> ustring" where
  "json_escape c =
     (if c = 34 then [92, 34]
      else if c = 92 then [92, 92]
      else if c = 8 then [92, 98]
      else if c = 12 then [92, 102]
      else if c = 10 then [92, 110]
      else if c = 13 then [92, 114]
      else if c = 9 then [92, 116]
      else if c < 32 then [92, 117, 48, 48, hex_digit (c div 16), hex_digit (c mod 16)]
      else [c])"

definition json_string :: "ustring \<Rightarrow> ustring" where
  "json_string s = [34] @ concat (map json_escape s) @ [34]"

fun json_dumps :: "(pyfloat \<Rightarrow> ustring) \<Rightarrow> json \<Rightarrow> ustring" where
  "json_dumps float_repr (JVal v) =
     (case v of
        PNone \<Rightarrow> ascii ''null''
      | PBool b \<Rightarrow> if b then ascii ''true'' else ascii ''false''
      | PInt i \<Rightarrow> py_str (PInt i)
      | PFloat x \<Rightarrow>
          (case x of
             Finite q \<Rightarrow> float_repr x
           | NaN \<Rightarrow> ascii ''NaN''
           | Infinity positive \<Rightarrow> if positive then ascii ''Infinity'' else ascii ''-Infinity'')
      | PStr s \<Rightarrow> json_string s)"
| "json_dumps float_repr (JList xs) =
     [91] @ py_join (ascii '', '') (map (json_dumps float_repr) xs) @ [93]"
| "json_dumps float_repr (JDict items) =
     [123] @ py_join (ascii '', '')
        (map (\<lambda>kv. json_string (fst kv) @ ascii '': '' @ json_dumps float_repr (snd kv))
           (sort_key fst items)) @ [125]"

text \<open>
  What \<open>deduplicate_pages\<close> reads from outside: the two configuration values, the file
  system (\<open>os.path.exists\<close> and the perceptual hash of an image file, empty when the
  image cannot be read), the optional \<open>rapidfuzz\<close> backend, and the rendering of floats.
\<close>

record dedup_env =
  IMAGE_HASH_SIZE :: nat
  OCR_DUPLICATE_THRESHOLD :: rat
  path_exists :: "ustring \<Rightarrow> bool"
  compute_image_hash :: "ustring \<Rightarrow> nat \<Rightarrow> ustring"
  rf_fuzz :: "rapidfuzz option"
  float_repr :: "pyfloat \<Rightarrow> ustring"

text \<open>\<open>hamming_distance\<close> and \<open>text_similarity\<close>.\<close>

definition hamming_distance :: "ustring \<Rightarrow> ustring \<Rightarrow> rat" where
  "hamming_distance hash1 hash2 =
     (if hash1 = [] \<or> hash2 = [] \<or> length hash1 \<noteq> length hash2 then 1
      else of_nat (length (filter (\<lambda>cc. fst cc \<noteq> snd cc) (zip hash1 hash2)))
             / of_nat (length hash1))"

definition text_similarity :: "rapidfuzz option \<Rightarrow> ustring \<Rightarrow> ustring \<Rightarrow> rat" where
  "text_similarity rf text1 text2 =
     (if text1 = [] \<or> text2 = [] then 0
      else
        let t1 = py_join (ascii '' '') (py_split (py_lower text1));
            t2 = py_join (ascii '' '') (py_split (py_lower text2))
        in if t1 = t2 then 1
           else case rf of
                  Some fuzz \<Rightarrow> ratio fuzz t1 t2 / 100
                | None \<Rightarrow> sm_ratio t1 t2)"

text \<open>The hash \<open>deduplicate_pages\<close> computes for a page.\<close>

definition page_hash :: "dedup_env \<Rightarrow> page \<Rightarrow> ustring" where
  "page_hash env page =
     (if filepath page \<noteq> [] \<and> path_exists env (filepath page)
      then compute_image_hash env (filepath page) (IMAGE_HASH_SIZE env) else [])"

text \<open>
  The three checks on a pair of pages, in the order of the code: the hashes, the OCR
  texts, the page type with the payload.
\<close>

definition is_duplicate ::
  "dedup_env \<Rightarrow> ustring \<Rightarrow> ustring \<Rightarrow> page \<Rightarrow> page \<Rightarrow> bool" where
  "is_duplicate env hash_i hash_j page_i page_j =
     (let by_hash = (hash_i \<noteq> [] \<and> hash_j \<noteq> [] \<and> hamming_distance hash_i hash_j < 10 / 100);
          by_text =
            (if by_hash then True
             else ocr_text page_i \<noteq> [] \<and> ocr_text page_j \<noteq> [] \<and>
                  OCR_DUPLICATE_THRESHOLD env
                    \<le> text_similarity (rf_fuzz env) (ocr_text page_i) (ocr_text page_j))
      in if by_text then True
         else page_type page_i = page_type page_j \<and> page_type page_i \<noteq> ascii ''unknown'' \<and>
              json_dumps (float_repr env) (data page_i) = json_dumps (float_repr env) (data page_j))"

text \<open>
  The body of the inner loop for the pair \<open>(i, j)\<close>, and the body of the outer loop for
  \<open>i\<close>; \<open>to_remove\<close> is the set of indices marked so far.
\<close>

definition compare_pair ::
  "dedup_env \<Rightarrow> page list \<Rightarrow> ustring list \<Rightarrow> nat \<Rightarrow> nat set \<Rightarrow> nat \<Rightarrow> nat set" where
  "compare_pair env pgs page_hashes i to_remove j =
     (if j \<in> to_remove then to_remove
      else if is_duplicate env (page_hashes ! i) (page_hashes ! j) (pgs ! i) (pgs ! j)
      then
        let len_i = length (ocr_text (pgs ! i));
            len_j = length (ocr_text (pgs ! j));
            remove_idx = (if len_j \<le> len_i then j else i)
        in insert remove_idx to_remove
      else to_remove)"

definition scan_from ::
  "dedup_env \<Rightarrow> page list \<Rightarrow> ustring list \<Rightarrow> nat set \<Rightarrow> nat \<Rightarrow> nat set" where
  "scan_from env pgs page_hashes to_remove i =
     (if i \<in> to_remove then to_remove
      else foldl (compare_pair env pgs page_hashes i) to_remove [i + 1..<length pgs])"

text \<open>
  The removal set of a page list, the list without the marked pages, and
  \<open>deduplicate_pages\<close> over the clusters.
\<close>

definition find_duplicates :: "dedup_env \<Rightarrow> page list \<Rightarrow> nat set" where
  "find_duplicates env pgs =
     foldl (scan_from env pgs (map (page_hash env) pgs)) {} [0..<length pgs]"

definition dedup_pages :: "dedup_env \<Rightarrow> page list \<Rightarrow> page list" where
  "dedup_pages env pgs =
     (let to_remove = find_duplicates env pgs
      in if to_remove = {} then pgs
         else map snd (filter (\<lambda>ip. fst ip \<notin> to_remove) (List.enumerate 0 pgs)))"

definition deduplicate_pages :: "dedup_env \<Rightarrow> clients \<Rightarrow> clients" where
  "deduplicate_pages env grouped_clients =
     map (\<lambda>kc.
            if fst kc = ascii ''_unmatched'' then kc
            else if length (pages (snd kc)) \<le> 1 then kc
            else (fst kc, (snd kc)\<lparr>pages := dedup_pages env (pages (snd kc))\<rparr>))
       grouped_clients"

text \<open>
  Two pages of a list are a duplicate pair, and the page \<open>k\<close> loses against the page
  \<open>m\<close>: they are a duplicate pair and \<open>k\<close> has the shorter text, or a text of the same
  length and the later position.
\<close>

definition dup :: "dedup_env \<Rightarrow> page list \<Rightarrow> nat \<Rightarrow> nat \<Rightarrow> bool" where
  "dup env pgs i j \<longleftrightarrow>
     is_duplicate env (page_hash env (pgs ! i)) (page_hash env (pgs ! j)) (pgs ! i) (pgs ! j)"

definition loses :: "dedup_env \<Rightarrow> page list \<Rightarrow> nat \<Rightarrow> nat \<Rightarrow> bool" where
  "loses env pgs k m \<longleftrightarrow>
     m < length pgs \<and> k < length pgs \<and>
     ((m < k \<and> dup env pgs m k \<and> length (ocr_text (pgs ! k)) \<le> length (ocr_text (pgs ! m))) \<or>
      (k < m \<and> dup env pgs k m \<and> length (ocr_text (pgs ! k)) < length (ocr_text (pgs ! m))))"

text \<open>
  An environment and pages for the examples: three images that differ in one or two of 16
  bits. No payload of the examples holds a float.
\<close>

definition example_hash :: "ustring \<Rightarrow> nat \<Rightarrow> ustring" where
  "example_hash path hash_size =
     (if path = ascii ''a.jpg'' \<or> path = ascii ''a2.jpg'' then ascii ''0000000000000000''
      else if path = ascii ''b.jpg'' then ascii ''1000000000000000''
      else if path = ascii ''c.jpg'' then ascii ''0000000000000001''
      else [])"

definition example_env :: dedup_env where
  "example_env =
     \<lparr>IMAGE_HASH_SIZE = 4, OCR_DUPLICATE_THRESHOLD = 90 / 100, path_exists = (\<lambda>_. True),
      compute_image_hash = example_hash, rf_fuzz = None, float_repr = (\<lambda>_. [])\<rparr>"

definition page_a :: page where
  "page_a = example_page ''a.jpg'' ''procedure_sheet'' [(ascii ''fio'', JStr (ascii ''Ivanova Anna''))] ''ab''"
definition page_a2 :: page where
  "page_a2 = example_page ''a2.jpg'' ''procedure_sheet'' [(ascii ''fio'', JStr (ascii ''Ivanova Anna''))] ''ab''"
definition page_b :: page where
  "page_b = example_page ''b.jpg'' ''medical_card_front'' [(ascii ''fio'', JStr (ascii ''Ivanova Anna''))] ''abc''"
definition page_c :: page where
  "page_c = example_page ''c.jpg'' ''products_list'' [(ascii ''fio'', JStr (ascii ''Ivanova Anna''))] []"

text \<open>
  The clusters of the repository's test \<open>test_dedup_not_applied_to_unmatched\<close>: pages with
  a file name and a text only, no image on disk, two of them under the key
  \<open>_unmatched\<close> and two with the same text under \<open>client_1\<close>.
\<close>

definition test_env :: dedup_env where
  "test_env =
     \<lparr>IMAGE_HASH_SIZE = 16, OCR_DUPLICATE_THRESHOLD = 9 / 10, path_exists = (\<lambda>_. False),
      compute_image_hash = (\<lambda>path hash_size. []), rf_fuzz = None, float_repr = (\<lambda>_. [])\<rparr>"

definition test_page :: "string \<Rightarrow> string \<Rightarrow> page" where
  "test_page file text =
     \<lparr>filename = ascii file, filepath = [], page_type = [], data = JDict [], ocr_text = ascii text\<rparr>"

definition test_grouped :: clients where
  "test_grouped =
     [(ascii ''_unmatched'',
       \<lparr>cl_name = JStr [9888], cl_phone = JStr [], cl_iin = JStr [],
        pages = [test_page ''a.jpg'' ''text a'', test_page ''b.jpg'' ''text b'']\<rparr>),
      (ascii ''client_1'',
       \<lparr>cl_name = JStr (ascii ''Test''), cl_phone = JStr [], cl_iin = JStr [],
        pages = [test_page ''c.jpg'' ''same'', test_page ''d.jpg'' ''same'']\<rparr>)]"

section \<open>Auxiliary facts\<close>

subsection \<open>Evaluation rules\<close>

lemma popular_short: "length b < 200 \<Longrightarrow> popular b = (\<lambda>_. False)"
  by (auto simp: popular_def fun_eq_iff)

lemma ascii_Nil_iff [simp]: "ascii s = [] \<longleftrightarrow> s = []"
  by (simp add: ascii_def)

lemmas sm_eval = sm_ratio_def popular_short matching_size.simps find_longest_match_def
  best_run_def candidates_def better_def upt_conv_Cons

lemmas str_eval = ascii_def py_lower_def lower_cp_def py_strip_def py_split_def py_isspace_def
  py_replace_def partition_after_def

lemma ascii_Nil [simp]: "ascii [] = []"
  by (simp add: ascii_def)

lemmas json_eval = extract_identifiers_def collect_name_phone_iin_def aliases_fio_def
  aliases_phone_def aliases_iin_def setdefault_def dict_get_def normalize_simple_def str_of_def
  Let_def

subsection \<open>Splitting\<close>

lemma split_ws_drop_leading: "split_ws [] (dropWhile py_isspace s) = split_ws [] s"
  by (induction s) auto

lemma split_ws_trailing: "\<forall>c \<in> set t. py_isspace c \<Longrightarrow> split_ws w (s @ t) = split_ws w s"
proof (induction s arbitrary: w)
  case Nil
  then show ?case by (induction t arbitrary: w) auto
next
  case (Cons a s)
  then show ?case by auto
qed

lemma py_split_strip: "py_split (py_strip s) = py_split s"
proof -
  let ?d = "dropWhile py_isspace s"
  have "?d = rev (dropWhile py_isspace (rev ?d)) @ rev (takeWhile py_isspace (rev ?d))"
    by (metis rev_append rev_rev_ident takeWhile_dropWhile_id)
  moreover have "\<forall>c \<in> set (rev (takeWhile py_isspace (rev ?d))). py_isspace c"
    by (auto dest: set_takeWhileD)
  ultimately have "split_ws [] ?d = split_ws [] (rev (dropWhile py_isspace (rev ?d)))"
    using split_ws_trailing by metis
  then show ?thesis by (simp add: py_split_def py_strip_def split_ws_drop_leading)
qed

lemma isspace_lower_cp: "py_isspace (lower_cp c) = py_isspace c"
  unfolding py_isspace_def lower_cp_def by (simp split: if_splits)

lemma split_ws_lower:
  "split_ws (map lower_cp w) (map lower_cp s) = map (map lower_cp) (split_ws w s)"
proof (induction s arbitrary: w)
  case Nil
  show ?case by simp
next
  case (Cons c s)
  show ?case
    using Cons [of "[]"] Cons [of "w @ [c]"] by (simp add: isspace_lower_cp)
qed

lemma py_split_lower: "py_split (py_lower s) = map py_lower (py_split s)"
  using split_ws_lower [of "[]" s] by (simp add: py_split_def py_lower_def [abs_def])

lemma py_strip_Nil: "py_strip [] = []"
  by (simp add: py_strip_def)

lemma py_strip_lower: "py_strip (py_lower s) = py_lower (py_strip s)"
  by (simp add: py_strip_def py_lower_def rev_map dropWhile_map comp_def isspace_lower_cp)

lemma normalize_name_ocr_eq:
  "normalize_name_ocr name = py_join (ascii '' '') (sort (map py_lower (py_split name)))"
proof (cases "name = []")
  case True
  then show ?thesis by (simp add: normalize_name_ocr_def py_split_def)
next
  case False
  have "py_split (py_lower (py_strip name)) = map py_lower (py_split name)"
    by (simp add: py_split_lower py_split_strip)
  with False show ?thesis by (simp add: normalize_name_ocr_def)
qed

subsection \<open>The registry index\<close>

lemma fst_set_index_row:
  "fst ` set (index_row index row) = fst ` set index \<union> ({r_name_norm row} - {[]})"
  by (auto simp: index_row_def Let_def AList.dom_map_entry AList.dom_update split: option.splits)

lemma distinct_index_row:
  "distinct (map fst index) \<Longrightarrow> distinct (map fst (index_row index row))"
  by (auto simp: index_row_def Let_def AList.distinct_map_entry AList.distinct_update
      split: option.splits)

lemma fst_set_foldl_index_row:
  "fst ` set (foldl index_row index rows) = fst ` set index \<union> registry_names rows"
  by (induction rows arbitrary: index) (auto simp: fst_set_index_row registry_names_def)

lemma distinct_foldl_index_row:
  "distinct (map fst index) \<Longrightarrow> distinct (map fst (foldl index_row index rows))"
  by (induction rows arbitrary: index) (auto simp: distinct_index_row)

lemma dates_of_index_row:
  assumes "name \<noteq> []"
  shows "dates_of (index_row index row) name =
     dates_of index name @ (if r_name_norm row = name then [r_date row] else [])"
proof (cases "r_name_norm row = []")
  case True
  with assms show ?thesis by (simp add: index_row_def)
next
  case False
  show ?thesis
  proof (cases "map_of index (r_name_norm row)")
    case None
    then have "r_name_norm row \<notin> set (map fst index)" by (simp add: map_of_eq_None_iff)
    with None False show ?thesis
      by (cases "r_doctor row")
         (auto simp: dates_of_def index_row_def Let_def AList.map_of_map_entry AList.update_conv')
  next
    case (Some d)
    then have "r_name_norm row \<in> set (map fst index)"
      by (metis map_of_eq_None_iff option.distinct(1) set_map)
    with Some False show ?thesis
      by (cases "r_doctor row")
         (auto simp: dates_of_def index_row_def Let_def AList.map_of_map_entry)
  qed
qed

lemma dates_of_foldl_index_row:
  "name \<noteq> [] \<Longrightarrow> dates_of (foldl index_row index rows) name =
     dates_of index name @ map r_date (filter (\<lambda>r. r_name_norm r = name) rows)"
  by (induction rows arbitrary: index) (auto simp: dates_of_index_row)

lemma is_aware_visit_key: "is_aware (visit_key v) = is_aware (v_date v)"
  by (cases "v_date v") (simp_all add: visit_key_def)

lemma sort_visits_cases:
  "sort_visits vs =
     (if mixed (map v_date vs) then Inl TypeError
      else Inr (sort_key (\<lambda>v. nanoseconds (visit_key v)) vs))"
  by (simp add: sort_visits_def mixed_def is_aware_visit_key)

lemma assign_id_cases:
  assumes "map_of index a = Some d"
  shows "assign_id index (n, a) =
     (if mixed (dates_of index a) then Inl TypeError
      else Inr (AList.update a
             (d\<lparr>visits := sort_key (\<lambda>v. nanoseconds (visit_key v)) (visits d),
                total_visits := length (visits d), db_id := format_db_id n\<rparr>) index))"
  using assms by (simp add: assign_id_def sort_visits_cases dates_of_def)

lemma assign_ids:
  assumes "distinct names" "set names \<subseteq> fst ` set index"
  shows "if \<exists>a \<in> set names. mixed (dates_of index a)
     then foldl_err assign_id index (List.enumerate n names) = Inl TypeError
     else \<exists>index'. foldl_err assign_id index (List.enumerate n names) = Inr index' \<and>
       (\<forall>x. db_id_of index' x =
          (if x \<in> set names
           then map_of (map (\<lambda>(i, name). (name, format_db_id i)) (List.enumerate n names)) x
           else db_id_of index x))"
  using assms
proof (induction names arbitrary: n index)
  case Nil
  then show ?case by simp
next
  case (Cons a names)
  from Cons.prems(2) obtain d where d: "map_of index a = Some d"
    by (metis list.set_intros(1) map_of_eq_None_iff not_None_eq subsetD)
  show ?case
  proof (cases "mixed (dates_of index a)")
    case True
    then show ?thesis by (simp add: assign_id_cases [OF d])
  next
    case False
    define index1 where "index1 = AList.update a
       (d\<lparr>visits := sort_key (\<lambda>v. nanoseconds (visit_key v)) (visits d),
          total_visits := length (visits d), db_id := format_db_id n\<rparr>) index"
    have step: "assign_id index (n, a) = Inr index1"
      using False by (simp add: assign_id_cases [OF d] index1_def)
    have keys: "fst ` set index1 = fst ` set index"
      using Cons.prems(2) by (auto simp: index1_def AList.dom_update)
    have other: "map_of index1 b = map_of index b" if "b \<noteq> a" for b
      using that by (simp add: index1_def AList.update_conv')
    have dates: "dates_of index1 b = dates_of index b" if "b \<noteq> a" for b
      using other [OF that] by (simp add: dates_of_def)
    have ida: "db_id_of index1 a = Some (format_db_id n)"
      by (simp add: db_id_of_def index1_def AList.update_conv')
    have idb: "db_id_of index1 b = db_id_of index b" if "b \<noteq> a" for b
      using other [OF that] by (simp add: db_id_of_def)
    have dn: "distinct names" "a \<notin> set names" using Cons.prems(1) by auto
    have sub: "set names \<subseteq> fst ` set index1" using Cons.prems(2) keys by auto
    have mix: "(\<exists>b \<in> set names. mixed (dates_of index1 b)) = (\<exists>b \<in> set names. mixed (dates_of index b))"
      using dn(2) dates by (metis)
    note IH = Cons.IH [OF dn(1) sub, of "Suc n"]
    show ?thesis
    proof (cases "\<exists>b \<in> set names. mixed (dates_of index b)")
      case True
      with IH mix have "foldl_err assign_id index1 (List.enumerate (Suc n) names) = Inl TypeError"
        by simp
      with True show ?thesis by (simp add: step)
    next
      case nomix: False
      with IH mix obtain index' where
        r: "foldl_err assign_id index1 (List.enumerate (Suc n) names) = Inr index'"
        and ids: "\<forall>x. db_id_of index' x =
          (if x \<in> set names
           then map_of (map (\<lambda>(i, name). (name, format_db_id i)) (List.enumerate (Suc n) names)) x
           else db_id_of index1 x)"
        by auto
      have "db_id_of index' x =
          (if x \<in> set (a # names)
           then map_of (map (\<lambda>(i, name). (name, format_db_id i)) (List.enumerate n (a # names))) x
           else db_id_of index x)" for x
        using ids dn(2) ida idb [of x] by auto
      with r nomix False show ?thesis by (simp add: step)
    qed
  qed
qed

lemma fst_set_id_table: "fst ` set (id_table names) = set names"
proof -
  have "fst ` set (map (\<lambda>(i, name). (name, format_db_id i)) (List.enumerate n names)) = set names"
    for n
    by (induction names arbitrary: n) auto
  then show ?thesis by (simp add: id_table_def)
qed

lemma mixed_dates_iff:
  "mixed_dates rows \<longleftrightarrow>
     (\<exists>a \<in> registry_names rows. mixed (map r_date (filter (\<lambda>r. r_name_norm r = a) rows)))"
  unfolding mixed_dates_def mixed_def registry_names_def
  by (auto, metis+)

lemma build_db_client_index_cases:
  "if mixed_dates rows then build_db_client_index rows = Inl TypeError
   else \<exists>index. build_db_client_index rows = Inr index \<and>
     (\<forall>name. db_id_of index name =
        map_of (id_table (sorted_list_of_set (registry_names rows))) name)"
proof -
  let ?index = "foldl index_row [] rows"
  let ?N = "registry_names rows"
  have keys: "set (map fst ?index) = ?N"
    using fst_set_foldl_index_row [of "[]" rows] by simp
  have dist: "distinct (map fst ?index)"
    by (rule distinct_foldl_index_row) simp
  have fin: "finite ?N" by (simp add: registry_names_def)
  have sorted_names: "sort (map fst ?index) = sorted_list_of_set ?N"
    using dist keys by (metis sorted_list_of_set_sort_remdups distinct_remdups_id)
  have dates: "dates_of ?index a = map r_date (filter (\<lambda>r. r_name_norm r = a) rows)"
    if "a \<in> ?N" for a
  proof -
    from that have "a \<noteq> []" by (simp add: registry_names_def)
    from dates_of_foldl_index_row [OF this, of "[]" rows] show ?thesis by (simp add: dates_of_def)
  qed
  have mix: "(\<exists>a \<in> set (sorted_list_of_set ?N). mixed (dates_of ?index a)) = mixed_dates rows"
    using fin dates by (simp add: mixed_dates_iff)
  have none: "db_id_of ?index name = None \<and> map_of (id_table (sorted_list_of_set ?N)) name = None"
    if "name \<notin> ?N" for name
    using that keys fin by (auto simp: db_id_of_def map_of_eq_None_iff fst_set_id_table)
  have "distinct (sorted_list_of_set ?N)" "set (sorted_list_of_set ?N) \<subseteq> fst ` set ?index"
    using keys fin by auto
  from assign_ids [OF this, of 1] mix none fin
  show ?thesis
    unfolding build_db_client_index_def Let_def sorted_names id_table_def [symmetric]
    by (auto simp: id_table_def)
qed

lemma row_norm:
  "example_row ''Petrova Maria'' p d = \<lparr>r_name = PStr (ascii ''Petrova Maria''), r_name_norm = ascii ''petrova maria'',
     r_phone_norm = normalize_phone (PStr (ascii p)), r_date = d, r_doctor = None,
     r_service = None\<rparr>"
  "example_row ''Ivanova Anna'' p d = \<lparr>r_name = PStr (ascii ''Ivanova Anna''), r_name_norm = ascii ''ivanova anna'',
     r_phone_norm = normalize_phone (PStr (ascii p)), r_date = d, r_doctor = None,
     r_service = None\<rparr>"
  by (simp_all add: example_row_def normalize_name_db_def str_eval)

lemma ids_a:
  "case build_db_client_index rows_a of
     Inl e \<Rightarrow> False
   | Inr index \<Rightarrow>
       db_id_of index (ascii ''ivanova anna'') = Some (ascii ''DB-0001'') \<and>
       db_id_of index (ascii ''petrova maria'') = Some (ascii ''DB-0002'')"
  by (simp add: rows_a_def row_norm build_db_client_index_def index_row_def Let_def assign_id_def
      sort_visits_def visit_key_def format_db_id_def zfill_def str_nat.simps db_id_of_def ascii_def
      eval_nat_numeral)

lemma perm_ab: "mset rows_b = mset rows_a"
  by (simp add: rows_a_def rows_b_def add_mset_commute)

lemma names_ab: "ascii ''petrova maria'' \<noteq> ascii ''ivanova anna''" "ascii ''ivanova anna'' \<noteq> []"
  by (simp_all add: ascii_def)

lemma not_mixed_a: "\<not> mixed_dates rows_a"
  by (simp add: mixed_dates_def rows_a_def row_norm)

lemma mixed_nat: "mixed_dates rows_nat"
  by (simp add: mixed_dates_def rows_nat_def row_norm names_ab)

subsection \<open>Grouping\<close>

lemma last_n_same_length:
  assumes "7 \<le> length s" and "py_last_n 7 s = py_last_n 7 t"
  shows "7 \<le> length t"
proof -
  have "length (py_last_n 7 s) = 7" using assms(1) by (simp add: py_last_n_def)
  then have "length (py_last_n 7 t) = 7" using assms(2) by simp
  then show ?thesis by (simp add: py_last_n_def)
qed

text \<open>Decimal rendering is injective, so the keys of the clusters are distinct.\<close>

lemma str_nat_nonempty: "str_nat n \<noteq> []"
  by (subst str_nat.simps) simp

lemma str_nat_last: "last (str_nat n) = 48 + n mod 10"
  by (subst str_nat.simps) simp

lemma str_nat_butlast: "butlast (str_nat n) = (if n < 10 then [] else str_nat (n div 10))"
  by (subst str_nat.simps) (simp add: butlast_append)

lemma str_nat_inj: "str_nat n = str_nat m \<Longrightarrow> n = m"
proof (induction n arbitrary: m rule: str_nat.induct)
  case (1 n)
  from "1.prems" have l: "n mod 10 = m mod 10"
    using str_nat_last [of n] str_nat_last [of m] by simp
  from "1.prems" have b: "butlast (str_nat n) = butlast (str_nat m)" by simp
  show ?case
  proof (cases "n < 10")
    case True
    then have "m < 10" using b str_nat_nonempty [of "m div 10"] by (auto simp: str_nat_butlast split: if_splits)
    with True l show ?thesis by simp
  next
    case False
    then have m: "\<not> m < 10" using b str_nat_nonempty [of "n div 10"] by (auto simp: str_nat_butlast split: if_splits)
    with False b have "str_nat (n div 10) = str_nat (m div 10)" by (simp add: str_nat_butlast)
    with "1.IH" False have "n div 10 = m div 10" by simp
    with l show ?thesis by (metis div_mult_mod_eq)
  qed
qed

lemma client_key_inj: "client_key n = client_key m \<Longrightarrow> n = m"
  by (simp add: client_key_def str_nat_inj)

lemma client_key_not_unmatched: "client_key n \<noteq> ascii ''_unmatched''"
  by (simp add: client_key_def ascii_def)

lemma client_key_1: "client_key 1 = ascii ''client_1''"
  by (simp add: client_key_def str_nat.simps ascii_def)

lemma keys_ok_distinct: "keys_ok clients \<Longrightarrow> distinct (map fst clients)"
  unfolding keys_ok_def by (metis client_key_inj distinct_map distinct_upt inj_onI)

lemma map_fst_map_entry: "map fst (AList.map_entry k f xs) = map fst xs"
  by (induction xs) auto

lemma length_map_entry: "length (AList.map_entry k f xs) = length xs"
  by (induction xs) auto

lemma keys_ok_map_entry: "keys_ok clients \<Longrightarrow> keys_ok (AList.map_entry k f clients)"
  by (simp add: keys_ok_def map_fst_map_entry length_map_entry)

lemma update_fresh: "k \<notin> fst ` set xs \<Longrightarrow> AList.update k v xs = xs @ [(k, v)]"
  by (induction xs) auto

lemma keys_ok_keys: "keys_ok clients \<Longrightarrow> fst ` set clients = client_key ` {1..<Suc (length clients)}"
proof -
  assume "keys_ok clients"
  then have "set (map fst clients) = set (map client_key [1..<Suc (length clients)])"
    by (simp only: keys_ok_def)
  then show ?thesis by (simp only: set_map set_upt)
qed

lemma fresh_key: "keys_ok clients \<Longrightarrow> client_key (Suc (length clients)) \<notin> fst ` set clients"
proof
  assume ok: "keys_ok clients" and "client_key (Suc (length clients)) \<in> fst ` set clients"
  then obtain i where "i \<in> {1..<Suc (length clients)}" "client_key (Suc (length clients)) = client_key i"
    unfolding keys_ok_keys [OF ok] by blast
  then show False using client_key_inj [of "Suc (length clients)" i] by simp
qed

lemma keys_ok_update:
  assumes "keys_ok clients"
  shows "keys_ok (AList.update (client_key (Suc (length clients))) v clients)"
proof -
  have "AList.update (client_key (Suc (length clients))) v clients
      = clients @ [(client_key (Suc (length clients)), v)]"
    using fresh_key [OF assms] by (rule update_fresh)
  then show ?thesis using assms by (simp add: keys_ok_def)
qed

lemma all_pages_update:
  assumes "keys_ok clients"
  shows "all_pages (AList.update (client_key (Suc (length clients))) v clients)
           = all_pages clients @ pages v"
proof -
  have "AList.update (client_key (Suc (length clients))) v clients
      = clients @ [(client_key (Suc (length clients)), v)]"
    using fresh_key [OF assms] by (rule update_fresh)
  then show ?thesis by (simp add: all_pages_def)
qed

lemma mset_all_pages_map_entry:
  assumes "distinct (map fst clients)" and "k \<in> fst ` set clients"
    and "\<And>c. mset (pages (f c)) = mset (pages c) + extra"
  shows "mset (all_pages (AList.map_entry k f clients)) = mset (all_pages clients) + extra"
  using assms(1,2)
proof (induction clients)
  case Nil
  then show ?case by simp
next
  case (Cons p clients)
  show ?case
  proof (cases "fst p = k")
    case True
    then show ?thesis using assms(3) [of "snd p"] by (simp add: all_pages_def)
  next
    case False
    then have "k \<in> fst ` set clients" using Cons.prems(2) by auto
    with Cons False show ?thesis by (simp add: all_pages_def)
  qed
qed

lemma or_else_True: "or_else a b = Inr True \<longleftrightarrow> a = Inr True \<or> (a = Inr False \<and> b = Inr True)"
  by (auto simp: or_else_def split: sum.splits)

lemma scan_clients_key:
  "scan_clients rf nf np ni clients threshold = Inr (Some k) \<Longrightarrow> k \<in> fst ` set clients"
  by (induction clients) (auto split: sum.splits if_splits)

lemma find_matching_client_key:
  "find_matching_client rf ids clients threshold = Inr (Some k) \<Longrightarrow> k \<in> fst ` set clients"
  by (auto simp: find_matching_client_def split: sum.splits dest: scan_clients_key)

lemma scan_clients_append:
  "scan_clients rf nf np ni pre threshold = Inr None \<Longrightarrow>
     scan_clients rf nf np ni (pre @ rest) threshold = scan_clients rf nf np ni rest threshold"
  by (induction pre) (auto split: sum.splits if_splits)

lemma find_matching_client_append:
  "find_matching_client rf ids pre threshold = Inr None \<Longrightarrow>
     find_matching_client rf ids (pre @ rest) threshold = find_matching_client rf ids rest threshold"
  by (auto simp: find_matching_client_def scan_clients_append split: sum.splits)

lemma group_step_kept:
  assumes "keys_ok (fst st)" and "group_step fr rf threshold st result = Inr st'"
  shows "keys_ok (fst st') \<and> kept st' = kept st + {#result#}"
proof -
  have merge: "mset (pages (merge_page ids result c)) = mset (pages c) + {#result#}" for ids c
    by (simp add: merge_page_def)
  have d: "distinct (map fst (fst st))" using assms(1) by (rule keys_ok_distinct)
  let ?ids = "extract_identifiers fr result"
  have create: "keys_ok (AList.update (client_key (Suc (length (fst st)))) (new_client ?ids result) (fst st))
      \<and> mset (all_pages (AList.update (client_key (Suc (length (fst st)))) (new_client ?ids result) (fst st)))
          = mset (all_pages (fst st)) + {#result#}"
    using keys_ok_update [OF assms(1)] all_pages_update [OF assms(1)] by (simp add: new_client_def)
  have join: "keys_ok (AList.map_entry k (merge_page ?ids result) (fst st))
      \<and> mset (all_pages (AList.map_entry k (merge_page ?ids result) (fst st)))
          = mset (all_pages (fst st)) + {#result#}"
    if "find_matching_client rf ?ids (fst st) threshold = Inr (Some k)" for k
    using keys_ok_map_entry [OF assms(1)] mset_all_pages_map_entry [OF d find_matching_client_key [OF that] merge]
    by simp
  show ?thesis
    using assms create join
    by (auto simp: group_step_def Let_def kept_def split: option.splits sum.splits if_splits)
qed

lemma foldl_group_step_kept:
  "keys_ok (fst st) \<Longrightarrow> foldl_err (group_step fr rf threshold) st rs = Inr st' \<Longrightarrow>
     keys_ok (fst st') \<and> kept st' = kept st + mset rs"
proof (induction rs arbitrary: st)
  case Nil
  then show ?case by simp
next
  case (Cons r rs)
  from Cons.prems(2) obtain st1 where s: "group_step fr rf threshold st r = Inr st1"
    and f: "foldl_err (group_step fr rf threshold) st1 rs = Inr st'"
    by (auto split: sum.splits)
  from group_step_kept [OF Cons.prems(1) s]
  have ok: "keys_ok (fst st1)" and k: "kept st1 = kept st + {#r#}" by auto
  from Cons.IH [OF ok f] k show ?case by simp
qed

lemma attach_step_kept:
  assumes "distinct (map fst (fst st))" and "attach_step fr rf threshold st p = Inr st'"
  shows "map fst (fst st') = map fst (fst st) \<and> kept st' = kept st + {#p#}"
proof -
  have app: "mset (pages (c\<lparr>pages := pages c @ [p]\<rparr>)) = mset (pages c) + {#p#}" for c :: client
    by simp
  have join: "mset (all_pages (AList.map_entry k (\<lambda>c. c\<lparr>pages := pages c @ [p]\<rparr>) (fst st)))
          = mset (all_pages (fst st)) + {#p#}"
    if "find_matching_client rf (extract_identifiers fr p) (fst st) threshold = Inr (Some k)" for k
    using mset_all_pages_map_entry [OF assms(1) find_matching_client_key [OF that] app] by simp
  show ?thesis
    using join assms(2)
    by (auto simp: attach_step_def Let_def kept_def map_fst_map_entry
        split: option.splits sum.splits if_splits)
qed

lemma foldl_attach_step_kept:
  "distinct (map fst (fst st)) \<Longrightarrow> foldl_err (attach_step fr rf threshold) st ps = Inr st' \<Longrightarrow>
     map fst (fst st') = map fst (fst st) \<and> kept st' = kept st + mset ps"
proof (induction ps arbitrary: st)
  case Nil
  then show ?case by simp
next
  case (Cons p ps)
  from Cons.prems(2) obtain st1 where s: "attach_step fr rf threshold st p = Inr st1"
    and f: "foldl_err (attach_step fr rf threshold) st1 ps = Inr st'"
    by (auto split: sum.splits)
  from attach_step_kept [OF Cons.prems(1) s]
  have m: "map fst (fst st1) = map fst (fst st)" and k: "kept st1 = kept st + {#p#}" by auto
  from m Cons.prems have "distinct (map fst (fst st1))" by simp
  from Cons.IH [OF this f] m k show ?case by simp
qed

lemma place_unmatched_kept:
  assumes "keys_ok clients" and "place_unmatched fr rf threshold clients unmatched = Inr clients'"
  shows "mset (all_pages clients') = mset (all_pages clients) + mset unmatched"
proof (cases unmatched)
  case Nil
  then show ?thesis using assms(2) by (simp add: place_unmatched_def)
next
  case (Cons first rest)
  have "k \<noteq> ascii ''_unmatched''" if "k \<in> set (map fst clients)" for k
  proof -
    from that have "k \<in> client_key ` {1..<Suc (length clients)}"
      using keys_ok_keys [OF assms(1)] by simp
    then obtain i where "k = client_key i" by auto
    then show ?thesis by (simp add: client_key_not_unmatched)
  qed
  then have all_keys: "filter (\<lambda>k. k \<noteq> ascii ''_unmatched'') (map fst clients) = map fst clients"
    by (simp only: filter_id_conv) blast
  show ?thesis
  proof (cases clients)
    case Nil
    then show ?thesis using Cons assms(2) by (auto simp: place_unmatched_def Let_def all_pages_def)
  next
    case (Cons kc clients'')
    from assms(2) \<open>unmatched = first # rest\<close> all_keys Cons
    obtain st where st: "foldl_err (attach_step fr rf threshold) (clients, []) unmatched = Inr st"
      and res: "clients' = (if snd st = [] then fst st
         else AList.map_entry (fst kc) (\<lambda>c. c\<lparr>pages := pages c @ snd st\<rparr>) (fst st))"
      by (auto simp: place_unmatched_def Let_def split: sum.splits if_splits)
    have d: "distinct (map fst (fst (clients, [] :: page list)))"
      using assms(1) keys_ok_distinct by simp
    from foldl_attach_step_kept [OF d st]
    have m: "map fst (fst st) = map fst clients"
      and k: "kept st = mset (all_pages clients) + mset unmatched" by (auto simp: kept_def)
    have d2: "distinct (map fst (fst st))" using m d by simp
    have prim: "fst kc \<in> fst ` set (fst st)"
      using m Cons by (metis list.set_intros(1) list.simps(9) set_map)
    have ext: "mset (pages (c\<lparr>pages := pages c @ snd st\<rparr>)) = mset (pages c) + mset (snd st)"
      for c :: client by simp
    show ?thesis
      using k mset_all_pages_map_entry [OF d2 prim ext]
      by (auto simp: res kept_def)
  qed
qed

lemma group_by_client_kept:
  assumes "group_by_client fr rf threshold results = Inr clients"
  shows "mset (all_pages clients) = mset results"
proof -
  from assms obtain st where
    st: "foldl_err (group_step fr rf threshold) ([], []) (sort_key priority results) = Inr st"
    and pl: "place_unmatched fr rf threshold (fst st) (snd st) = Inr clients"
    by (auto simp: group_by_client_def Let_def split: sum.splits)
  have ok0: "keys_ok (fst ([] :: clients, [] :: page list))" by (simp add: keys_ok_def)
  from foldl_group_step_kept [OF ok0 st]
  have ok: "keys_ok (fst st)" and k: "kept st = mset results"
    by (auto simp: kept_def all_pages_def)
  show ?thesis using place_unmatched_kept [OF ok pl] k by (simp add: kept_def)
qed

lemma is_str_as_str: "is_str v \<Longrightarrow> \<exists>s. as_str v = Inr s"
  by (cases v rule: is_str.cases) (simp_all add: as_str_def)

lemma is_str_iff: "is_str v \<longleftrightarrow> (\<exists>s. v = JStr s)"
  by (cases v rule: is_str.cases) simp_all

lemma map_of_setdefault:
  "map_of (setdefault key v items) k =
     (if k = key \<and> key \<notin> fst ` set items then Some v else map_of items k)"
proof (cases "key \<in> fst ` set items")
  case True
  then show ?thesis by (simp add: setdefault_def)
next
  case False
  then have "map_of items key = None" by (simp add: map_of_eq_None_iff)
  with False show ?thesis by (auto simp: setdefault_def map_add_def split: option.splits)
qed

lemma str_setdefault:
  "(case map_of items key of None \<Rightarrow> True | Some v \<Rightarrow> is_str v) \<Longrightarrow>
   (case map_of (setdefault k (JStr s) items) key of None \<Rightarrow> True | Some v \<Rightarrow> is_str v)"
  by (simp add: map_of_setdefault split: option.splits)

lemma extract_identifiers_str:
  assumes "str_payload (data r)"
  shows "str_ids (extract_identifiers fr r)"
proof (cases "data r")
  case (JDict items)
  have keys: "ascii ''fio'' \<noteq> ascii ''phone''" "ascii ''fio'' \<noteq> ascii ''iin''"
    "ascii ''phone'' \<noteq> ascii ''iin''" by (simp_all add: ascii_def)
  have s: "is_str (dict_get items' key (JStr []))"
    if "case map_of items' key of None \<Rightarrow> True | Some v \<Rightarrow> is_str v" for items' key
    using that by (simp add: dict_get_def split: option.splits)
  have p: "case map_of items key of None \<Rightarrow> True | Some v \<Rightarrow> is_str v"
    if "key \<in> {ascii ''fio'', ascii ''phone'', ascii ''iin''}" for key
    using assms JDict that by (auto simp: str_payload_def)
  have q: "case map_of (collect_name_phone_iin fr (data r)) key of
      None \<Rightarrow> True | Some v \<Rightarrow> is_str v"
    if "key \<in> {ascii ''fio'', ascii ''phone'', ascii ''iin''}" for key
    using p [OF that]
    by (simp add: JDict collect_name_phone_iin_def Let_def str_setdefault)
  show ?thesis
    unfolding str_ids_def extract_identifiers_def Let_def
    by (simp add: s q)
qed (simp_all add: str_ids_def extract_identifiers_def collect_name_phone_iin_def dict_get_def ascii_def)

lemma fuzzy_match_ocr_str:
  assumes "is_str a" "is_str b"
  shows "\<exists>x. fuzzy_match_ocr rf a b = Inr x"
proof -
  from assms obtain s1 s2 where ab: "a = JStr s1" "b = JStr s2" by (auto simp: is_str_iff)
  define x where "x = (if s1 = [] \<or> s2 = [] then 0
    else if normalize_name_ocr s1 = normalize_name_ocr s2 then 1
    else case rf of Some r \<Rightarrow> token_sort_ratio r (normalize_name_ocr s1) (normalize_name_ocr s2) / 100
         | None \<Rightarrow> sm_ratio (normalize_name_ocr s1) (normalize_name_ocr s2))"
  have "fuzzy_match_ocr rf a b = Inr x"
    unfolding x_def ab by (cases rf) (simp_all add: fuzzy_match_ocr_def as_str_def Let_def)
  then show ?thesis ..
qed

lemma checks_str:
  assumes "str_client c" "is_str nf"
  shows "\<exists>b. or_else (iin_check ni c) (or_else (phone_check np c) (name_check rf nf c threshold)) = Inr b"
proof -
  obtain x where x: "fuzzy_match_ocr rf nf (cl_name c) = Inr x"
    using fuzzy_match_ocr_str [of nf "cl_name c" rf] assms by (auto simp: str_client_def)
  obtain a b where ab: "as_str (cl_iin c) = Inr a" "as_str (cl_phone c) = Inr b"
    using is_str_as_str [of "cl_iin c"] is_str_as_str [of "cl_phone c"] assms(1)
    by (auto simp: str_client_def)
  show ?thesis
    by (auto simp: or_else_def iin_check_def phone_check_def name_check_def x ab Let_def)
qed

lemma scan_clients_str:
  "\<forall>kc \<in> set clients. str_client (snd kc) \<Longrightarrow> is_str nf \<Longrightarrow>
     \<exists>r. scan_clients rf nf np ni clients threshold = Inr r"
proof (induction clients)
  case Nil
  then show ?case by simp
next
  case (Cons kc clients)
  obtain k c where kc: "kc = (k, c)" by (cases kc)
  from Cons.prems have "str_client c" by (simp add: kc)
  from checks_str [OF this Cons.prems(2), of ni np rf threshold] obtain b where
    "or_else (iin_check ni c) (or_else (phone_check np c) (name_check rf nf c threshold)) = Inr b" ..
  with Cons show ?case by (auto simp: kc)
qed

lemma find_matching_client_str:
  assumes "\<forall>kc \<in> set clients. str_client (snd kc)" "str_ids ids"
  shows "\<exists>r. find_matching_client rf ids clients threshold = Inr r"
proof -
  obtain p i where "as_str (ids_phone ids) = Inr p" "as_str (ids_iin ids) = Inr i"
    using assms(2) is_str_as_str [of "ids_phone ids"] is_str_as_str [of "ids_iin ids"]
    by (auto simp: str_ids_def)
  then show ?thesis
    using scan_clients_str [OF assms(1), of "fio ids"] assms(2)
    by (simp add: find_matching_client_def str_ids_def)
qed

lemma str_client_map_entry:
  "\<forall>kc \<in> set clients. str_client (snd kc) \<Longrightarrow> (\<And>c. str_client c \<Longrightarrow> str_client (f c)) \<Longrightarrow>
     \<forall>kc \<in> set (AList.map_entry k f clients). str_client (snd kc)"
  by (induction clients) auto

lemma str_client_update:
  "\<forall>kc \<in> set clients. str_client (snd kc) \<Longrightarrow> str_client v \<Longrightarrow>
     \<forall>kc \<in> set (AList.update k v clients). str_client (snd kc)"
  by (induction clients) auto

lemma group_step_str:
  assumes "\<forall>kc \<in> set (fst st). str_client (snd kc)" "str_payload (data r)"
  shows "\<exists>st'. group_step fr rf threshold st r = Inr st' \<and>
     (\<forall>kc \<in> set (fst st'). str_client (snd kc))"
proof -
  let ?ids = "extract_identifiers fr r"
  have ids: "str_ids ?ids" using assms(2) by (rule extract_identifiers_str)
  obtain res where res: "find_matching_client rf ?ids (fst st) threshold = Inr res"
    using find_matching_client_str [OF assms(1) ids] by blast
  have m: "str_client (merge_page ?ids r c)" if "str_client c" for c
    using that ids by (simp add: merge_page_def str_client_def str_ids_def)
  have n: "str_client (new_client ?ids r)"
    using ids by (simp add: new_client_def str_client_def str_ids_def)
  show ?thesis
    using assms(1) str_client_map_entry [OF assms(1) m] str_client_update [OF assms(1) n]
    by (auto simp: group_step_def Let_def res split: option.splits)
qed

lemma foldl_group_step_str:
  "\<forall>kc \<in> set (fst st). str_client (snd kc) \<Longrightarrow> \<forall>r \<in> set rs. str_payload (data r) \<Longrightarrow>
     \<exists>st'. foldl_err (group_step fr rf threshold) st rs = Inr st' \<and>
       (\<forall>kc \<in> set (fst st'). str_client (snd kc))"
proof (induction rs arbitrary: st)
  case Nil
  then show ?case by simp
next
  case (Cons r rs)
  from group_step_str [OF Cons.prems(1), of r fr rf threshold] Cons.prems(2)
  obtain st1 where s: "group_step fr rf threshold st r = Inr st1"
    and c: "\<forall>kc \<in> set (fst st1). str_client (snd kc)" by auto
  from Cons.IH [OF c] Cons.prems(2) s show ?case by simp
qed

lemma attach_step_str:
  assumes "\<forall>kc \<in> set (fst st). str_client (snd kc)" "str_payload (data p)"
  shows "\<exists>st'. attach_step fr rf threshold st p = Inr st' \<and>
     (\<forall>kc \<in> set (fst st'). str_client (snd kc))"
proof -
  let ?ids = "extract_identifiers fr p"
  have ids: "str_ids ?ids" using assms(2) by (rule extract_identifiers_str)
  obtain res where res: "find_matching_client rf ?ids (fst st) threshold = Inr res"
    using find_matching_client_str [OF assms(1) ids] by blast
  have m: "str_client (c\<lparr>pages := pages c @ [p]\<rparr>)" if "str_client c" for c
    using that by (simp add: str_client_def)
  show ?thesis
    using assms(1) str_client_map_entry [OF assms(1) m]
    by (auto simp: attach_step_def Let_def res split: option.splits)
qed

lemma foldl_attach_step_str:
  "\<forall>kc \<in> set (fst st). str_client (snd kc) \<Longrightarrow> \<forall>r \<in> set ps. str_payload (data r) \<Longrightarrow>
     \<exists>st'. foldl_err (attach_step fr rf threshold) st ps = Inr st'"
proof (induction ps arbitrary: st)
  case Nil
  then show ?case by simp
next
  case (Cons p ps)
  from attach_step_str [OF Cons.prems(1), of p fr rf threshold] Cons.prems(2)
  obtain st1 where s: "attach_step fr rf threshold st p = Inr st1"
    and c: "\<forall>kc \<in> set (fst st1). str_client (snd kc)" by auto
  from Cons.IH [OF c] Cons.prems(2) s show ?case by simp
qed

lemma place_unmatched_str:
  assumes "\<forall>kc \<in> set clients. str_client (snd kc)" "\<forall>r \<in> set unmatched. str_payload (data r)"
  shows "\<exists>clients'. place_unmatched fr rf threshold clients unmatched = Inr clients'"
proof -
  obtain st where "foldl_err (attach_step fr rf threshold) (clients, []) unmatched = Inr st"
    using foldl_attach_step_str [of "(clients, [])" unmatched fr rf threshold] assms by auto
  then show ?thesis
    by (simp add: place_unmatched_def Let_def split: list.splits)
qed

lemma foldl_group_step_unmatched:
  "foldl_err (group_step fr rf threshold) st rs = Inr st' \<Longrightarrow>
     set (snd st') \<subseteq> set (snd st) \<union> set rs"
proof (induction rs arbitrary: st)
  case Nil
  then show ?case by auto
next
  case (Cons r rs)
  from Cons.prems obtain st1 where s: "group_step fr rf threshold st r = Inr st1"
    and f: "foldl_err (group_step fr rf threshold) st1 rs = Inr st'"
    by (auto split: sum.splits)
  from s have "set (snd st1) \<subseteq> set (snd st) \<union> {r}"
    by (auto simp: group_step_def Let_def split: sum.splits option.splits if_splits)
  with Cons.IH [OF f] show ?case by auto
qed

lemma group_by_client_returns:
  assumes "\<forall>r \<in> set results. str_payload (data r)"
  shows "\<exists>clients. group_by_client fr rf threshold results = Inr clients"
proof -
  have a: "\<forall>r \<in> set (sort_key priority results). str_payload (data r)" using assms by simp
  obtain st where st: "foldl_err (group_step fr rf threshold) ([], []) (sort_key priority results) = Inr st"
    and c: "\<forall>kc \<in> set (fst st). str_client (snd kc)"
    using foldl_group_step_str [of "([], [])" "sort_key priority results" fr rf threshold] a
    by auto
  have "set (snd st) \<subseteq> set results" using foldl_group_step_unmatched [OF st] by simp
  then have "\<forall>r \<in> set (snd st). str_payload (data r)" using assms by auto
  from place_unmatched_str [OF c this, of fr rf threshold] st
  show ?thesis by (simp add: group_by_client_def Let_def)
qed

lemma strip_spaces_Nil: "strip_spaces [] = []"
  by (simp add: strip_spaces_def py_replace_def)

lemma clean_phone_Nil: "clean_phone [] = []"
  by (simp add: clean_phone_def py_replace_def)

lemma scan_clients_exact:
  assumes "(ni \<noteq> [] \<and> cl_iin c = JStr m \<and> ni = strip_spaces m) \<or>
           (7 \<le> length np \<and> cl_phone c = JStr q \<and> py_last_n 7 np = py_last_n 7 (clean_phone q) \<and>
            (is_str (cl_iin c) \<or> \<not> json_truthy (cl_iin c)))"
  shows "scan_clients rf nf np ni ((k, c) # later) threshold = Inr (Some k)"
  using assms
proof
  assume a: "ni \<noteq> [] \<and> cl_iin c = JStr m \<and> ni = strip_spaces m"
  then have "m \<noteq> []" using strip_spaces_Nil by auto
  with a have "iin_check ni c = Inr True" by (auto simp: iin_check_def as_str_def)
  then show ?thesis by (simp add: or_else_def)
next
  assume b: "7 \<le> length np \<and> cl_phone c = JStr q \<and> py_last_n 7 np = py_last_n 7 (clean_phone q) \<and>
            (is_str (cl_iin c) \<or> \<not> json_truthy (cl_iin c))"
  then have "7 \<le> length (clean_phone q)" using last_n_same_length by blast
  then have "clean_phone q \<noteq> []" by auto
  moreover from this have "q \<noteq> []" using clean_phone_Nil by auto
  moreover have "np \<noteq> []" using b by auto
  ultimately have p: "phone_check np c = Inr True" using b
    by (simp add: phone_check_def as_str_def Let_def)
  have "\<exists>x. iin_check ni c = Inr x"
    using b by (cases "cl_iin c" rule: is_str.cases) (auto simp: iin_check_def as_str_def)
  then obtain x where "iin_check ni c = Inr x" ..
  with p show ?thesis by (cases x) (simp_all add: or_else_def)
qed

lemma find_matching_client_exact:
  assumes "(ids_iin ids = JStr n \<and> cl_iin c = JStr m \<and> strip_spaces n \<noteq> [] \<and>
              strip_spaces n = strip_spaces m) \<or>
           (ids_phone ids = JStr p \<and> cl_phone c = JStr q \<and> 7 \<le> length (clean_phone p) \<and>
              py_last_n 7 (clean_phone p) = py_last_n 7 (clean_phone q) \<and>
              (is_str (cl_iin c) \<or> \<not> json_truthy (cl_iin c)))"
    and "find_matching_client rf ids earlier threshold = Inr None"
  shows "find_matching_client rf ids (earlier @ (k, c) # later) threshold = Inr (Some k)"
proof -
  from assms(2) obtain p' n' where s: "as_str (ids_phone ids) = Inr p'" "as_str (ids_iin ids) = Inr n'"
    and e: "scan_clients rf (fio ids) (clean_phone p') (strip_spaces n') earlier threshold = Inr None"
    by (auto simp: find_matching_client_def split: sum.splits)
  from s have t: "ids_phone ids = JStr p'" "ids_iin ids = JStr n'"
    by (auto simp: as_str_def split: json.splits pyval.splits)
  have "scan_clients rf (fio ids) (clean_phone p') (strip_spaces n') ((k, c) # later) threshold
      = Inr (Some k)"
    using assms(1) t by (intro scan_clients_exact [of _ _ m _ q]) auto
  then show ?thesis
    using scan_clients_append [OF e] s by (simp add: find_matching_client_def)
qed

subsection \<open>The grouping examples\<close>

lemma ids_front:
  "extract_identifiers fr front = \<lparr>fio = JStr (ascii ''Ivanova Anna''),
     ids_phone = JStr (ascii ''+7 700 000 00 00''), ids_iin = JStr []\<rparr>"
  "extract_identifiers fr front2 = \<lparr>fio = JStr (ascii ''Ivanova Anna''),
     ids_phone = JStr (ascii ''+7 700 000 00 00''), ids_iin = JStr []\<rparr>"
  by (simp_all add: front_def front2_def example_page_def json_eval str_eval)

lemma ids_proc:
  "extract_identifiers fr proc = \<lparr>fio = JStr (ascii ''Anna Ivanova''),
     ids_phone = JStr [], ids_iin = JStr []\<rparr>"
  by (simp add: proc_def example_page_def json_eval str_eval)

lemma ids_blank:
  "extract_identifiers fr blank = \<lparr>fio = JStr [], ids_phone = JStr [], ids_iin = JStr []\<rparr>"
  by (simp add: blank_def example_page_def json_eval str_eval)

lemma ids_null_phone:
  "extract_identifiers fr null_phone = \<lparr>fio = JStr (ascii ''Ivanova Anna''),
     ids_phone = JNull, ids_iin = JStr (ascii ''900101300123'')\<rparr>"
  by (simp add: null_phone_def example_page_def json_eval str_eval)

lemma names_eq: "normalize_name_ocr (ascii ''Anna Ivanova'') = normalize_name_ocr (ascii ''Ivanova Anna'')"
  by (simp add: normalize_name_ocr_def str_eval)

lemma fm1: "fuzzy_match_ocr None (JStr (ascii ''Anna Ivanova'')) (JStr (ascii ''Ivanova Anna'')) = Inr 1"
  by (simp add: fuzzy_match_ocr_def as_str_def names_eq)

lemma prio:
  "priority (example_page f ''procedure_sheet'' d t) = 2"
  "priority (example_page f ''unknown'' d t) = 99"
  "priority (example_page f ''medical_card_front'' d t) = 0"
  by (simp_all add: priority_def example_page_def priority_order_def ascii_def)

lemma batch_sorted: "sort_key priority example_batch = [front, front2, proc, blank]"
  by (simp add: example_batch_def front_def front2_def proc_def blank_def prio)

lemma cp: "clean_phone (ascii ''+7 700 000 00 00'') = ascii ''77000000000''"
  by (simp add: clean_phone_def py_replace_def ascii_def)

lemma types:
  "page_type front \<noteq> ascii ''error''" "page_type front2 \<noteq> ascii ''error''"
  "page_type proc \<noteq> ascii ''error''" "page_type blank \<noteq> ascii ''error''"
  "page_type null_phone \<noteq> ascii ''error''"
  by (simp_all add: front_def front2_def proc_def blank_def null_phone_def example_page_def ascii_def)

lemma group_step_unmatched:
  "page_type r = ascii ''error'' \<or>
     (\<not> json_truthy (fio (extract_identifiers fr r)) \<and>
      \<not> json_truthy (ids_phone (extract_identifiers fr r)) \<and>
      \<not> json_truthy (ids_iin (extract_identifiers fr r)))
   \<Longrightarrow> group_step fr rf th (cs, um) r = Inr (cs, um @ [r])"
  by (auto simp: group_step_def Let_def)

lemma group_step_find:
  "page_type r \<noteq> ascii ''error'' \<Longrightarrow>
   json_truthy (fio (extract_identifiers fr r)) \<or> json_truthy (ids_phone (extract_identifiers fr r)) \<or>
     json_truthy (ids_iin (extract_identifiers fr r)) \<Longrightarrow>
   group_step fr rf th (cs, um) r =
     (case find_matching_client rf (extract_identifiers fr r) cs th of
        Inl e \<Rightarrow> Inl e
      | Inr (Some k) \<Rightarrow>
          if k \<noteq> [] then Inr (AList.map_entry k (merge_page (extract_identifiers fr r) r) cs, um)
          else Inr (AList.update (client_key (Suc (length cs))) (new_client (extract_identifiers fr r) r) cs, um)
      | Inr None \<Rightarrow>
          Inr (AList.update (client_key (Suc (length cs))) (new_client (extract_identifiers fr r) r) cs, um))"
  by (auto simp: group_step_def Let_def split: sum.splits option.splits)

lemma attach_step_remaining:
  "\<not> json_truthy (fio (extract_identifiers fr p)) \<and>
      \<not> json_truthy (ids_phone (extract_identifiers fr p)) \<and>
      \<not> json_truthy (ids_iin (extract_identifiers fr p))
   \<Longrightarrow> attach_step fr rf th (cs, rem) p = Inr (cs, rem @ [p])"
  by (auto simp: attach_step_def Let_def)

lemma ck1: "client_key (Suc 0) = ascii ''client_1''"
  using client_key_1 by simp

lemma not_unmatched: "ascii ''client_1'' \<noteq> ascii ''_unmatched''" "ascii ''client_1'' \<noteq> []"
  by (simp_all add: ascii_def)

lemma find_empty:
  "find_matching_client rf \<lparr>fio = f, ids_phone = JStr p, ids_iin = JStr i\<rparr> [] th = Inr None"
  by (simp add: find_matching_client_def as_str_def)

lemma step1: "group_step fr None (75 / 100) ([], []) front = Inr ([(ascii ''client_1'', anna [front])], [])"
  by (subst group_step_find)
     (simp_all add: types ids_front find_empty new_client_def anna_def ck1)

lemma match_front2:
  "find_matching_client None (extract_identifiers fr front2) [(k, anna ps)] th = Inr (Some k)"
proof -
  have "7 \<le> length (ascii ''77000000000'')" by (simp add: ascii_def)
  then show ?thesis
    by (simp add: ids_front find_matching_client_def as_str_def anna_def or_else_def iin_check_def
        phone_check_def strip_spaces_def py_replace_def cp Let_def)
qed

lemma step2:
  "group_step fr None (75 / 100) ([(ascii ''client_1'', anna ps)], []) front2
     = Inr ([(ascii ''client_1'', anna (ps @ [front2]))], [])"
proof -
  have m: "merge_page (extract_identifiers fr front2) front2 (anna ps) = anna (ps @ [front2])"
    by (simp add: merge_page_def anna_def ids_front)
  have t: "json_truthy (fio (extract_identifiers fr front2)) \<or>
      json_truthy (ids_phone (extract_identifiers fr front2)) \<or>
      json_truthy (ids_iin (extract_identifiers fr front2))" by (simp add: ids_front)
  show ?thesis
    using group_step_find [OF types(2) t, of None "75 / 100" "[(ascii ''client_1'', anna ps)]" "[]"]
      match_front2 [of fr "ascii ''client_1''" ps "75 / 100"]
    by (simp add: not_unmatched m)
qed

lemma match_proc:
  "find_matching_client None (extract_identifiers fr proc) [(k, anna ps)] (75 / 100) = Inr (Some k)"
proof -
  have "clean_phone [] = []" "strip_spaces [] = []"
    by (simp_all add: clean_phone_def strip_spaces_def py_replace_def)
  then show ?thesis
    by (simp add: ids_proc find_matching_client_def as_str_def anna_def or_else_def iin_check_def
        phone_check_def name_check_def fm1 Let_def)
qed

lemma step3:
  "group_step fr None (75 / 100) ([(ascii ''client_1'', anna ps)], []) proc
     = Inr ([(ascii ''client_1'', anna (ps @ [proc]))], [])"
proof -
  have m: "merge_page (extract_identifiers fr proc) proc (anna ps) = anna (ps @ [proc])"
    by (simp add: merge_page_def anna_def ids_proc)
  have t: "json_truthy (fio (extract_identifiers fr proc)) \<or>
      json_truthy (ids_phone (extract_identifiers fr proc)) \<or>
      json_truthy (ids_iin (extract_identifiers fr proc))" by (simp add: ids_proc)
  show ?thesis
    using group_step_find [OF types(3) t, of None "75 / 100" "[(ascii ''client_1'', anna ps)]" "[]"]
      match_proc [of fr "ascii ''client_1''" ps]
    by (simp add: not_unmatched m)
qed

lemma step4: "group_step fr None (75 / 100) (cs, []) blank = Inr (cs, [blank])"
  using group_step_unmatched [of blank fr None "75 / 100" cs "[]"] by (simp add: ids_blank)

lemma place:
  "place_unmatched fr None (75 / 100) [(ascii ''client_1'', anna ps)] [blank]
     = Inr [(ascii ''client_1'', anna (ps @ [blank]))]"
proof -
  have "attach_step fr None (75 / 100) ([(ascii ''client_1'', anna ps)], []) blank
      = Inr ([(ascii ''client_1'', anna ps)], [blank])"
    using attach_step_remaining [of fr blank None "75 / 100" "[(ascii ''client_1'', anna ps)]" "[]"]
    by (simp add: ids_blank)
  then show ?thesis
    by (simp add: place_unmatched_def not_unmatched Let_def anna_def)
qed

lemma grouped_example:
  "group_by_client fr None (75 / 100) example_batch
     = Inr [(ascii ''client_1'', anna [front, front2, proc, blank])]"
  unfolding group_by_client_def batch_sorted Let_def
  using step1 [of fr] step2 [of fr "[front]"] step3 [of fr "[front, front2]"]
    step4 [of fr "[(ascii ''client_1'', anna [front, front2, proc])]"] place [of fr "[front, front2, proc]"]
  by simp

lemma distinct_example_batch: "distinct example_batch"
  by (simp add: example_batch_def front_def front2_def proc_def blank_def example_page_def ascii_def)

lemma null_phone_raises:
  "group_by_client fr rf th [null_phone] = Inl AttributeError"
  by (simp add: group_by_client_def group_step_def types ids_null_phone find_matching_client_def
      as_str_def Let_def)

lemma str_payload_examples:
  "str_payload (data front)" "str_payload (data front2)" "str_payload (data proc)"
  "str_payload (data blank)" "\<not> str_payload (data null_phone)"
  by (simp_all add: str_payload_def front_def front2_def proc_def blank_def null_phone_def
      example_page_def ascii_def)

lemma strip_iin: "strip_spaces (ascii ''9001 0130 0123'') = ascii ''900101300123''"
  "strip_spaces (ascii ''900101300123'') = ascii ''900101300123''"
  by (simp_all add: strip_spaces_def py_replace_def ascii_def)

lemma clean_phones:
  "clean_phone (ascii ''8 700 123-45-67'') = ascii ''87001234567''"
  "clean_phone (ascii ''+7 (700) 1234567'') = ascii ''7(700)1234567''"
  by (simp_all add: clean_phone_def py_replace_def ascii_def)

lemma names_differ:
  "fuzzy_match_ocr None (JStr (ascii ''Ivanova Anna'')) (JStr (ascii ''Petrova Maria'')) = Inr (12 / 25)"
proof -
  have a: "normalize_name_ocr (ascii ''Ivanova Anna'') = ascii ''anna ivanova''"
    by (simp add: normalize_name_ocr_def str_eval)
  have b: "normalize_name_ocr (ascii ''Petrova Maria'') = ascii ''maria petrova''"
    by (simp add: normalize_name_ocr_def str_eval)
  have r: "sm_ratio (ascii ''anna ivanova'') (ascii ''maria petrova'') = 12 / 25"
    by (simp add: sm_eval ascii_def)
  have ne: "ascii ''anna ivanova'' \<noteq> ascii ''maria petrova''" by (simp add: ascii_def)
  show ?thesis by (simp add: fuzzy_match_ocr_def as_str_def a b r ne Let_def)
qed

subsection \<open>Duplicate pages\<close>

lemma hamming_distance_same:
  assumes "h \<noteq> []"
  shows "hamming_distance h h = 0"
proof -
  have "filter (\<lambda>cc. fst cc \<noteq> snd cc) (zip h h) = []"
    by (induction h) auto
  then show ?thesis using assms by (simp add: hamming_distance_def)
qed

lemma is_duplicate_same_hash:
  "hash_i \<noteq> [] \<Longrightarrow> is_duplicate env hash_i hash_i page_i page_j"
  by (simp add: is_duplicate_def hamming_distance_same)

lemma find_duplicates_two:
  "find_duplicates env [p, q] =
     (if is_duplicate env (page_hash env p) (page_hash env q) p q
      then {if length (ocr_text q) \<le> length (ocr_text p) then 1 else 0} else {})"
  by (simp add: find_duplicates_def scan_from_def compare_pair_def Let_def upt_conv_Cons)

lemma dedup_pages_two:
  "dedup_pages env [p, q] =
     (if is_duplicate env (page_hash env p) (page_hash env q) p q
      then (if length (ocr_text q) \<le> length (ocr_text p) then [p] else [q])
      else [p, q])"
  by (simp add: dedup_pages_def find_duplicates_two Let_def)

lemma example_hashes:
  "page_hash example_env page_a = ascii ''0000000000000000''"
  "page_hash example_env page_a2 = ascii ''0000000000000000''"
  "page_hash example_env page_b = ascii ''1000000000000000''"
  "page_hash example_env page_c = ascii ''0000000000000001''"
  by (simp_all add: page_hash_def example_env_def example_hash_def page_a_def page_a2_def
      page_b_def page_c_def example_page_def) (simp_all add: ascii_def)

lemma example_distances:
  "hamming_distance (ascii ''0000000000000000'') (ascii ''1000000000000000'') = 1 / 16"
  "hamming_distance (ascii ''0000000000000000'') (ascii ''0000000000000001'') = 1 / 16"
  "hamming_distance (ascii ''1000000000000000'') (ascii ''0000000000000001'') = 1 / 8"
  by (simp_all add: hamming_distance_def ascii_def)

lemma dup_ab: "is_duplicate example_env (page_hash example_env page_a) (page_hash example_env page_b) page_a page_b"
  by (simp add: is_duplicate_def example_hashes example_distances)

lemma dup_ac: "is_duplicate example_env (page_hash example_env page_a) (page_hash example_env page_c) page_a page_c"
  by (simp add: is_duplicate_def example_hashes example_distances)

lemma not_dup_bc:
  "\<not> is_duplicate example_env (page_hash example_env page_b) (page_hash example_env page_c) page_b page_c"
  by (simp add: is_duplicate_def example_hashes example_distances)
     (simp add: page_b_def page_c_def example_page_def ascii_def)

lemma example_lengths:
  "length (ocr_text page_a) = 2" "length (ocr_text page_b) = 3" "length (ocr_text page_c) = 0"
  "length (ocr_text page_a2) = 2"
  by (simp_all add: page_a_def page_a2_def page_b_def page_c_def example_page_def ascii_def)

lemma compare_pair_cases:
  assumes "i < j" "j < length pgs" "hs = map (page_hash env) pgs"
  shows "compare_pair env pgs hs i S j =
     (if j \<in> S \<or> \<not> dup env pgs i j then S
      else insert (if length (ocr_text (pgs ! i)) < length (ocr_text (pgs ! j)) then i else j) S)"
  using assms by (auto simp: compare_pair_def dup_def Let_def)

lemma compare_loop:
  assumes "hs = map (page_hash env) pgs" "i < j'" "j' \<le> length pgs"
  shows "S0 \<subseteq> foldl (compare_pair env pgs hs i) S0 [Suc i..<j'] \<and>
     foldl (compare_pair env pgs hs i) S0 [Suc i..<j'] \<subseteq> S0 \<union> {i..<j'} \<and>
     (\<forall>k \<in> foldl (compare_pair env pgs hs i) S0 [Suc i..<j'] - S0. \<exists>m. loses env pgs k m) \<and>
     (\<forall>b. i < b \<and> b < j' \<and> dup env pgs i b \<longrightarrow>
        i \<in> foldl (compare_pair env pgs hs i) S0 [Suc i..<j'] \<or>
        b \<in> foldl (compare_pair env pgs hs i) S0 [Suc i..<j'])"
  using assms(2,3)
proof (induction j')
  case 0
  then show ?case by simp
next
  case (Suc j)
  show ?case
  proof (cases "i = j")
    case True
    then show ?thesis by auto
  next
    case False
    with Suc.prems have ij: "i < j" "j < length pgs" "j \<le> length pgs" by auto
    let ?S = "foldl (compare_pair env pgs hs i) S0 [Suc i..<j]"
    have IH: "S0 \<subseteq> ?S" "?S \<subseteq> S0 \<union> {i..<j}" "\<forall>k \<in> ?S - S0. \<exists>m. loses env pgs k m"
      "\<forall>b. i < b \<and> b < j \<and> dup env pgs i b \<longrightarrow> i \<in> ?S \<or> b \<in> ?S"
      using Suc.IH [OF ij(1) ij(3)] by auto
    have step: "foldl (compare_pair env pgs hs i) S0 [Suc i..<Suc j] = compare_pair env pgs hs i ?S j"
      using ij(1) by simp
    have cp: "compare_pair env pgs hs i ?S j =
       (if j \<in> ?S \<or> \<not> dup env pgs i j then ?S
        else insert (if length (ocr_text (pgs ! i)) < length (ocr_text (pgs ! j)) then i else j) ?S)"
      by (rule compare_pair_cases [OF ij(1,2) assms(1)])
    have li: "loses env pgs i j" if "dup env pgs i j" "length (ocr_text (pgs ! i)) < length (ocr_text (pgs ! j))"
      using that ij by (auto simp: loses_def)
    have lj: "loses env pgs j i" if "dup env pgs i j" "\<not> length (ocr_text (pgs ! i)) < length (ocr_text (pgs ! j))"
      using that ij by (auto simp: loses_def)
    show ?thesis
      unfolding step cp using IH li lj ij(1)
      by (auto simp: less_Suc_eq)
  qed
qed

lemma scan_from_inv:
  assumes "i < length pgs" "hs = map (page_hash env) pgs"
  shows "S0 \<subseteq> scan_from env pgs hs S0 i \<and>
     scan_from env pgs hs S0 i \<subseteq> S0 \<union> {..<length pgs} \<and>
     (\<forall>k \<in> scan_from env pgs hs S0 i - S0. \<exists>m. loses env pgs k m) \<and>
     (\<forall>b. i < b \<and> b < length pgs \<and> dup env pgs i b \<longrightarrow>
        i \<in> scan_from env pgs hs S0 i \<or> b \<in> scan_from env pgs hs S0 i)"
proof (cases "i \<in> S0")
  case True
  then show ?thesis by (simp add: scan_from_def)
next
  case False
  have "Suc i \<le> length pgs" using assms(1) by simp
  from compare_loop [OF assms(2) _ order_refl, of i S0] assms(1) False
  show ?thesis by (auto simp: scan_from_def)
qed

lemma outer_loop:
  assumes "hs = map (page_hash env) pgs" "i' \<le> length pgs"
  shows "foldl (scan_from env pgs hs) {} [0..<i'] \<subseteq> {..<length pgs} \<and>
     (\<forall>k \<in> foldl (scan_from env pgs hs) {} [0..<i']. \<exists>m. loses env pgs k m) \<and>
     (\<forall>a b. a < i' \<and> a < b \<and> b < length pgs \<and> dup env pgs a b \<longrightarrow>
        a \<in> foldl (scan_from env pgs hs) {} [0..<i'] \<or>
        b \<in> foldl (scan_from env pgs hs) {} [0..<i'])"
  using assms(2)
proof (induction i')
  case 0
  then show ?case by simp
next
  case (Suc i)
  let ?S = "foldl (scan_from env pgs hs) {} [0..<i]"
  have i: "i < length pgs" "i \<le> length pgs" using Suc.prems by auto
  have IH: "?S \<subseteq> {..<length pgs}" "\<forall>k \<in> ?S. \<exists>m. loses env pgs k m"
    "\<forall>a b. a < i \<and> a < b \<and> b < length pgs \<and> dup env pgs a b \<longrightarrow> a \<in> ?S \<or> b \<in> ?S"
    using Suc.IH [OF i(2)] by auto
  have step: "foldl (scan_from env pgs hs) {} [0..<Suc i] = scan_from env pgs hs ?S i" by simp
  from scan_from_inv [OF i(1) assms(1), of ?S]
  have s: "?S \<subseteq> scan_from env pgs hs ?S i"
    "scan_from env pgs hs ?S i \<subseteq> ?S \<union> {..<length pgs}"
    "\<forall>k \<in> scan_from env pgs hs ?S i - ?S. \<exists>m. loses env pgs k m"
    "\<forall>b. i < b \<and> b < length pgs \<and> dup env pgs i b \<longrightarrow>
        i \<in> scan_from env pgs hs ?S i \<or> b \<in> scan_from env pgs hs ?S i"
    by auto
  have mono: "x \<in> ?S \<Longrightarrow> x \<in> scan_from env pgs hs ?S i" for x using s(1) by auto
  have a: "scan_from env pgs hs ?S i \<subseteq> {..<length pgs}" using IH(1) s(2) by auto
  have b: "\<exists>m. loses env pgs k m" if "k \<in> scan_from env pgs hs ?S i" for k
    using that IH(2) s(3) by (cases "k \<in> ?S") auto
  have c: "a \<in> scan_from env pgs hs ?S i \<or> b \<in> scan_from env pgs hs ?S i"
    if "a < Suc i" "a < b" "b < length pgs" "dup env pgs a b" for a b
  proof (cases "a = i")
    case True
    then show ?thesis using s(4) that by blast
  next
    case False
    then have "a < i" using that(1) by simp
    then have "a \<in> ?S \<or> b \<in> ?S" using IH(3) that by blast
    then show ?thesis using mono by blast
  qed
  show ?case unfolding step using a b c by blast
qed

lemma find_duplicates_props:
  "find_duplicates env pgs \<subseteq> {..<length pgs} \<and>
   (\<forall>k \<in> find_duplicates env pgs. \<exists>m. loses env pgs k m) \<and>
   (\<forall>a b. a < b \<and> b < length pgs \<and> dup env pgs a b \<longrightarrow>
      a \<in> find_duplicates env pgs \<or> b \<in> find_duplicates env pgs)"
proof -
  have "a < length pgs" if "a < b" "b < length pgs" for a b :: nat using that by simp
  then show ?thesis
    using outer_loop [OF refl order_refl, of env pgs] unfolding find_duplicates_def by blast
qed

lemma enumerate_nth: "List.enumerate 0 xs = map (\<lambda>i. (i, xs ! i)) [0..<length xs]"
  by (rule nth_equalityI) (simp_all add: nth_enumerate_eq)

lemma dedup_pages_eq:
  "dedup_pages env pgs =
     map ((!) pgs) (filter (\<lambda>i. i \<notin> find_duplicates env pgs) [0..<length pgs])"
proof (cases "find_duplicates env pgs = {}")
  case True
  then show ?thesis by (simp add: dedup_pages_def map_nth)
next
  case False
  then show ?thesis
    by (simp add: dedup_pages_def Let_def enumerate_nth filter_map comp_def)
qed

lemma find_duplicates_short: "length pgs \<le> 1 \<Longrightarrow> find_duplicates env pgs = {}"
proof (rule ccontr)
  assume l: "length pgs \<le> 1" and "find_duplicates env pgs \<noteq> {}"
  then obtain k where "k \<in> find_duplicates env pgs" by auto
  then obtain m where "loses env pgs k m" using find_duplicates_props [of env pgs] by blast
  then show False using l by (auto simp: loses_def)
qed

lemma dedup_pages_short: "length pgs \<le> 1 \<Longrightarrow> dedup_pages env pgs = pgs"
  by (simp add: dedup_pages_def find_duplicates_short)

section \<open>Properties\<close>

text \<open>
  C10. \<open>normalize_phone\<close> (in both files that define it) returns the empty string for
  every falsy input and for every float, whatever digits the float would render to: a
  phone number that arrives as a numeric float cell is treated as absent.
\<close>

theorem normalize_phone_falsy_or_float:
  "\<not> truthy v \<or> isinstance_float v \<Longrightarrow>
     normalize_phone v = [] \<and> normalize_phone_ocr v = []"
  by (simp add: normalize_phone_def normalize_phone_ocr_def)

theorem normalize_phone_falsy_or_float_witness:
  "isinstance_float (PFloat (Finite 87001234567)) \<and>
   normalize_phone (PFloat (Finite 87001234567)) = [] \<and>
   normalize_phone_ocr (PFloat (Finite 87001234567)) = [] \<and>
   normalize_phone (PStr []) = []"
  using normalize_phone_falsy_or_float [of "PFloat (Finite 87001234567)"]
    normalize_phone_falsy_or_float [of "PStr []"]
  by simp

text \<open>
  C7. Word-order independence holds for \<open>client_card_ocr.normalize_name\<close>, the one the
  grouper uses: two names with the same words, in any order and with any whitespace
  between them, normalise to the same string.
\<close>

theorem normalize_name_ocr_word_order:
  "mset (py_split s) = mset (py_split t) \<Longrightarrow> normalize_name_ocr s = normalize_name_ocr t"
proof -
  assume "mset (py_split s) = mset (py_split t)"
  then have "mset (map py_lower (py_split s)) = mset (map py_lower (py_split t))"
    by (metis mset_map)
  then have "sort (map py_lower (py_split s)) = sort (map py_lower (py_split t))"
    by (metis properties_for_sort sorted_sort mset_sort)
  then show ?thesis by (simp add: normalize_name_ocr_eq)
qed

lemma sp_a: "py_split (ascii ''Ivanov Petr'') = [ascii ''Ivanov'', ascii ''Petr'']"
  by (simp add: str_eval)
lemma sp_b: "py_split (ascii ''Petr  Ivanov '') = [ascii ''Petr'', ascii ''Ivanov'']"
  by (simp add: str_eval)

theorem normalize_name_ocr_word_order_witness:
  "normalize_name_ocr (ascii ''Ivanov Petr'') = normalize_name_ocr (ascii ''Petr  Ivanov '')"
  using normalize_name_ocr_word_order [of "ascii ''Ivanov Petr''" "ascii ''Petr  Ivanov ''"]
  by (simp add: sp_a sp_b)

theorem normalize_name_db_keeps_word_order:
  "normalize_name_db (PStr (ascii ''Ivanov Petr'')) = ascii ''ivanov petr'' \<and>
   normalize_name_db (PStr (ascii ''Petr Ivanov'')) = ascii ''petr ivanov'' \<and>
   normalize_name_db (PStr (ascii ''Ivanov Petr'')) \<noteq> normalize_name_db (PStr (ascii ''Petr Ivanov''))"
  by (simp add: normalize_name_db_def str_eval)

lemma norm_alexandr:
  "normalize_name_db (PStr (ascii ''Konstantinopolsky Alexandr'')) = ascii ''konstantinopolsky alexandr''"
  by (simp add: normalize_name_db_def str_eval)

lemma norm_alexandra:
  "normalize_name_db (PStr (ascii ''Konstantinopolsky Alexandra'')) = ascii ''konstantinopolsky alexandra''"
  by (simp add: normalize_name_db_def str_eval)

lemma split_alexandr:
  "py_split (ascii ''konstantinopolsky alexandr'') = [ascii ''konstantinopolsky'', ascii ''alexandr'']"
  by (simp add: str_eval)

lemma split_alexandra:
  "py_split (ascii ''konstantinopolsky alexandra'') = [ascii ''konstantinopolsky'', ascii ''alexandra'']"
  by (simp add: str_eval)

lemma ratio_alexandr:
  "sm_ratio (ascii ''konstantinopolsky alexandr'') (ascii ''konstantinopolsky alexandra'') = 52 / 53"
  by (simp add: sm_eval ascii_def)

text \<open>
  C2. \<open>match_names\<close> is documented to return a score between 0 and 1, but the surname
  branch adds 0.02 to the similarity without a bound: for two long names with the same
  surname that differ by one trailing letter the similarity is 52/53 and the result is
  above 1.
\<close>

theorem match_names_exceeds_one:
  "match_names True (PStr (ascii ''Konstantinopolsky Alexandr''))
     (PStr (ascii ''Konstantinopolsky Alexandra'')) = 2653 / 2650"
  unfolding match_names_def norm_alexandr norm_alexandra Let_def split_alexandr split_alexandra
    fuzzy_match_db_def ratio_alexandr
  by (simp add: ascii_def)

theorem match_names_exceeds_one_witness:
  "1 < match_names True (PStr (ascii ''Konstantinopolsky Alexandr''))
     (PStr (ascii ''Konstantinopolsky Alexandra''))"
  using match_names_exceeds_one by simp

text \<open>
  C4. When a normalised name is empty the score is 0, before any rule. With whole-word
  containment (the default), two names whose normalised forms are both non-empty and
  differ, and where the words of one are among the words of the other, score exactly
  0.95. When neither word set contains the other the rule does not apply: the score is
  the similarity, with 0.02 added for a common first word of three letters or more. So a
  name of one word against a different single word is scored by similarity alone,
  whether or not the one is a substring of the other: \<open>Ivan\<close> against \<open>Ivanova\<close> scores
  8/11.
\<close>

theorem match_names_word_containment:
  "(normalize_name_db a = [] \<or> normalize_name_db b = [] \<longrightarrow> match_names wb a b = 0) \<and>
   (normalize_name_db a \<noteq> [] \<and> normalize_name_db b \<noteq> [] \<and>
    normalize_name_db a \<noteq> normalize_name_db b \<and>
    (set (py_split (normalize_name_db a)) \<subseteq> set (py_split (normalize_name_db b)) \<or>
     set (py_split (normalize_name_db b)) \<subseteq> set (py_split (normalize_name_db a))) \<longrightarrow>
      match_names True a b = 95 / 100) \<and>
   (normalize_name_db a \<noteq> [] \<and> normalize_name_db b \<noteq> [] \<and>
    \<not> set (py_split (normalize_name_db a)) \<subseteq> set (py_split (normalize_name_db b)) \<and>
    \<not> set (py_split (normalize_name_db b)) \<subseteq> set (py_split (normalize_name_db a)) \<longrightarrow>
      match_names True a b =
        (if hd (py_split (normalize_name_db a)) = hd (py_split (normalize_name_db b)) \<and>
            3 \<le> length (hd (py_split (normalize_name_db a)))
         then fuzzy_match_db (normalize_name_db a) (normalize_name_db b) + 2 / 100
         else fuzzy_match_db (normalize_name_db a) (normalize_name_db b))) \<and>
   (py_split (normalize_name_db a) = [u] \<and> py_split (normalize_name_db b) = [w] \<and> u \<noteq> w \<longrightarrow>
      match_names True a b = fuzzy_match_db (normalize_name_db a) (normalize_name_db b))"
proof -
  let ?n1 = "normalize_name_db a" and ?n2 = "normalize_name_db b"
  have e: "py_split [] = []" by (simp add: py_split_def)
  have 1: "?n1 = [] \<or> ?n2 = [] \<longrightarrow> match_names wb a b = 0"
    by (auto simp: match_names_def Let_def)
  have 2: "?n1 \<noteq> [] \<and> ?n2 \<noteq> [] \<and> ?n1 \<noteq> ?n2 \<and>
      (set (py_split ?n1) \<subseteq> set (py_split ?n2) \<or> set (py_split ?n2) \<subseteq> set (py_split ?n1)) \<longrightarrow>
      match_names True a b = 95 / 100"
    by (simp add: match_names_def Let_def)
  have 3: "?n1 \<noteq> [] \<and> ?n2 \<noteq> [] \<and>
      \<not> set (py_split ?n1) \<subseteq> set (py_split ?n2) \<and> \<not> set (py_split ?n2) \<subseteq> set (py_split ?n1) \<longrightarrow>
      match_names True a b =
        (if hd (py_split ?n1) = hd (py_split ?n2) \<and> 3 \<le> length (hd (py_split ?n1))
         then fuzzy_match_db ?n1 ?n2 + 2 / 100 else fuzzy_match_db ?n1 ?n2)"
  proof (intro impI, elim conjE)
    assume a: "?n1 \<noteq> []" "?n2 \<noteq> []" "\<not> set (py_split ?n1) \<subseteq> set (py_split ?n2)"
      "\<not> set (py_split ?n2) \<subseteq> set (py_split ?n1)"
    then have "?n1 \<noteq> ?n2" "py_split ?n1 \<noteq> []" "py_split ?n2 \<noteq> []" by auto
    with a show "match_names True a b =
        (if hd (py_split ?n1) = hd (py_split ?n2) \<and> 3 \<le> length (hd (py_split ?n1))
         then fuzzy_match_db ?n1 ?n2 + 2 / 100 else fuzzy_match_db ?n1 ?n2)"
      by (simp add: match_names_def Let_def max_def)
  qed
  have 4: "py_split ?n1 = [u] \<and> py_split ?n2 = [w] \<and> u \<noteq> w \<longrightarrow>
      match_names True a b = fuzzy_match_db ?n1 ?n2"
  proof (intro impI, elim conjE)
    assume a: "py_split ?n1 = [u]" "py_split ?n2 = [w]" "u \<noteq> w"
    then have "?n1 \<noteq> []" "?n2 \<noteq> []" using e by auto
    moreover have "\<not> set (py_split ?n1) \<subseteq> set (py_split ?n2)"
      "\<not> set (py_split ?n2) \<subseteq> set (py_split ?n1)" using a by auto
    ultimately show "match_names True a b = fuzzy_match_db ?n1 ?n2"
      using 3 a by simp
  qed
  from 1 2 3 4 show ?thesis by blast
qed

theorem match_names_word_containment_witness:
  "match_names True (PStr (ascii ''Ivanov'')) (PStr (ascii ''Ivanov Ivan'')) = 95 / 100 \<and>
   match_names True (PStr (ascii ''Ivan'')) (PStr (ascii ''Ivanova'')) = 8 / 11 \<and>
   match_names True (PStr (ascii ''Ivanova'')) (PStr (ascii ''Ivan'')) = 8 / 11 \<and>
   match_names True (PStr (ascii ''Ivanov Petr'')) (PStr (ascii ''Ivanov Pavel'')) = 18 / 23 + 2 / 100 \<and>
   match_names True (PStr (ascii ''[7542]'')) (PStr (ascii ''Ivanov'')) = 0"
proof -
  have n: "normalize_name_db (PStr (ascii ''Ivanov'')) = ascii ''ivanov''"
    "normalize_name_db (PStr (ascii ''Ivanov Ivan'')) = ascii ''ivanov ivan''"
    "normalize_name_db (PStr (ascii ''Ivan'')) = ascii ''ivan''"
    "normalize_name_db (PStr (ascii ''Ivanova'')) = ascii ''ivanova''"
    "normalize_name_db (PStr (ascii ''Ivanov Petr'')) = ascii ''ivanov petr''"
    "normalize_name_db (PStr (ascii ''Ivanov Pavel'')) = ascii ''ivanov pavel''"
    "normalize_name_db (PStr (ascii ''[7542]'')) = []"
    by (simp_all add: normalize_name_db_def str_eval)
  have s: "py_split (ascii ''ivanov'') = [ascii ''ivanov'']"
    "py_split (ascii ''ivanov ivan'') = [ascii ''ivanov'', ascii ''ivan'']"
    "py_split (ascii ''ivan'') = [ascii ''ivan'']"
    "py_split (ascii ''ivanova'') = [ascii ''ivanova'']"
    "py_split (ascii ''ivanov petr'') = [ascii ''ivanov'', ascii ''petr'']"
    "py_split (ascii ''ivanov pavel'') = [ascii ''ivanov'', ascii ''pavel'']"
    by (simp_all add: str_eval)
  have d: "ascii ''ivanov'' \<noteq> ascii ''ivanov ivan''" "ascii ''ivan'' \<noteq> ascii ''ivanova''"
    "ascii ''ivanova'' \<noteq> ascii ''ivan''" "ascii ''petr'' \<noteq> ascii ''pavel''"
    "ascii ''petr'' \<noteq> ascii ''ivanov''" "ascii ''pavel'' \<noteq> ascii ''ivanov''"
    "ascii ''pavel'' \<noteq> ascii ''petr''"
    "3 \<le> length (ascii ''ivanov'')"
    by (simp_all add: ascii_def)
  have f: "fuzzy_match_db (ascii ''ivan'') (ascii ''ivanova'') = 8 / 11"
    "fuzzy_match_db (ascii ''ivanova'') (ascii ''ivan'') = 8 / 11"
    "fuzzy_match_db (ascii ''ivanov petr'') (ascii ''ivanov pavel'') = 18 / 23"
    by (simp_all add: fuzzy_match_db_def sm_eval ascii_def)
  have 1: "match_names True (PStr (ascii ''Ivanov'')) (PStr (ascii ''Ivanov Ivan'')) = 95 / 100"
    using match_names_word_containment [of "PStr (ascii ''Ivanov'')" "PStr (ascii ''Ivanov Ivan'')" True "[]" "[]"]
    by (simp add: n s d)
  have 2: "match_names True (PStr (ascii ''Ivan'')) (PStr (ascii ''Ivanova'')) = 8 / 11"
    using match_names_word_containment [of "PStr (ascii ''Ivan'')" "PStr (ascii ''Ivanova'')" True
        "ascii ''ivan''" "ascii ''ivanova''"]
    by (simp add: n s d f)
  have 3: "match_names True (PStr (ascii ''Ivanova'')) (PStr (ascii ''Ivan'')) = 8 / 11"
    using match_names_word_containment [of "PStr (ascii ''Ivanova'')" "PStr (ascii ''Ivan'')" True
        "ascii ''ivanova''" "ascii ''ivan''"]
    by (simp add: n s d f)
  have 4: "match_names True (PStr (ascii ''Ivanov Petr'')) (PStr (ascii ''Ivanov Pavel'')) = 18 / 23 + 2 / 100"
    using match_names_word_containment [of "PStr (ascii ''Ivanov Petr'')" "PStr (ascii ''Ivanov Pavel'')" True
        "[]" "[]"]
    by (simp add: n s d f)
  have 5: "match_names True (PStr (ascii ''[7542]'')) (PStr (ascii ''Ivanov'')) = 0"
    using match_names_word_containment [of "PStr (ascii ''[7542]'')" "PStr (ascii ''Ivanov'')" True "[]" "[]"]
    by (simp add: n)
  from 1 2 3 4 5 show ?thesis by simp
qed

theorem match_names_empty_name_counterexample:
  "normalize_name_db (PStr (ascii ''[7542]'')) = [] \<and>
   set (py_split (normalize_name_db (PStr (ascii ''[7542]''))))
     \<subseteq> set (py_split (normalize_name_db (PStr (ascii ''Ivanov'')))) \<and>
   normalize_name_db (PStr (ascii ''[7542]'')) \<noteq> normalize_name_db (PStr (ascii ''Ivanov'')) \<and>
   match_names True (PStr (ascii ''[7542]'')) (PStr (ascii ''Ivanov'')) = 0"
proof -
  have n: "normalize_name_db (PStr (ascii ''[7542]'')) = []"
    by (simp add: normalize_name_db_def str_eval)
  have m: "normalize_name_db (PStr (ascii ''Ivanov'')) = ascii ''ivanov''"
    by (simp add: normalize_name_db_def str_eval)
  show ?thesis unfolding match_names_def n m by (simp add: py_split_def ascii_def)
qed

text \<open>
  C5. A row without a name is skipped. Every other row gets a status and the best match
  of \<open>find_best_match\<close>: the confident tier exactly when there is a match whose phone
  flag is set, or the name has at least two words and the match scores at least 0.85;
  the "maybe" tier for any other match; the "not found" tier exactly when there is no
  match.
\<close>

theorem verify_row_status:
  "(ocr_name = [] \<or> ocr_name = ascii ''nan'' \<longrightarrow>
      verify_row wb MIN_FIO_WORDS_FOR_CONFIDENT_MATCH ocr_name ocr_phone idx threshold = None) \<and>
   (ocr_name \<noteq> [] \<and> ocr_name \<noteq> ascii ''nan'' \<longrightarrow>
      (\<exists>st. verify_row wb MIN_FIO_WORDS_FOR_CONFIDENT_MATCH ocr_name ocr_phone idx threshold
              = Some (st, find_best_match wb (PStr ocr_name) (PStr ocr_phone) idx threshold) \<and>
         (st = STATUS_DB_FOUND \<longleftrightarrow>
            (\<exists>m. find_best_match wb (PStr ocr_name) (PStr ocr_phone) idx threshold = Some m \<and>
               (phone_match m \<or> (2 \<le> length (py_split ocr_name) \<and> 85 / 100 \<le> score m)))) \<and>
         (st = STATUS_DB_MAYBE \<longleftrightarrow>
            (\<exists>m. find_best_match wb (PStr ocr_name) (PStr ocr_phone) idx threshold = Some m \<and>
               \<not> (phone_match m \<or> (2 \<le> length (py_split ocr_name) \<and> 85 / 100 \<le> score m)))) \<and>
         (st = STATUS_DB_NOT_FOUND \<longleftrightarrow>
            find_best_match wb (PStr ocr_name) (PStr ocr_phone) idx threshold = None)))"
  by (auto simp: verify_row_def status_bd_def Let_def py_split_strip
      MIN_FIO_WORDS_FOR_CONFIDENT_MATCH_def split: option.splits)

lemma ex_name_score:
  "match_names True (PStr (ascii ''Abcdefghij'')) (PStr (ascii ''Abcdefghix'')) = 9 / 10"
  by (simp add: match_names_def normalize_name_db_def fuzzy_match_db_def str_eval sm_eval)

lemma ex_name_score2:
  "match_names True (PStr (ascii ''Abcdefghix Yz'')) (PStr (ascii ''Abcdefghix'')) = 95 / 100"
  by (simp add: match_names_def normalize_name_db_def str_eval)

lemma ex_name_score3:
  "match_names True (PStr (ascii ''Qrstuvw'')) (PStr (ascii ''Abcdefghix'')) = 0"
  by (simp add: match_names_def normalize_name_db_def fuzzy_match_db_def str_eval sm_eval)

lemma ex_phone: "normalize_phone (PStr (ascii ''8 (700) 123-45-67'')) = ascii ''77001234567''"
  by (simp add: normalize_phone_def str_eval py_isdigit_def)

lemma ex_no_phone: "normalize_phone (PStr []) = []"
  by (simp add: normalize_phone_def)

lemma ex_match_no_phone:
  "find_best_match True (PStr (ascii ''Abcdefghij'')) (PStr [])
     [(ascii ''abcdefghix'', ex_client)] (7 / 10)
   = Some \<lparr>m_db_id = ascii ''DB-0001'', db_name = PStr (ascii ''Abcdefghix''),
       db_name_norm = ascii ''abcdefghix'', db_phone = ascii ''77001234567'', score = 9 / 10,
       m_total_visits = 0, m_doctors = {}, m_visits = [], phone_match = False\<rparr>"
  by (simp add: find_best_match_def best_match_step_def ex_name_score ex_no_phone ex_client_def
      Let_def)

lemma ex_match_phone:
  "find_best_match True (PStr (ascii ''Abcdefghij'')) (PStr (ascii ''8 (700) 123-45-67''))
     [(ascii ''abcdefghix'', ex_client)] (7 / 10)
   = Some \<lparr>m_db_id = ascii ''DB-0001'', db_name = PStr (ascii ''Abcdefghix''),
       db_name_norm = ascii ''abcdefghix'', db_phone = ascii ''77001234567'', score = 1,
       m_total_visits = 0, m_doctors = {}, m_visits = [], phone_match = True\<rparr>"
  unfolding find_best_match_def best_match_step_def ex_phone ex_client_def Let_def
  by (simp add: ex_name_score)

lemma ex_no_match:
  "find_best_match True (PStr (ascii ''Qrstuvw'')) (PStr [])
     [(ascii ''abcdefghix'', ex_client)] (7 / 10) = None"
  by (simp add: find_best_match_def best_match_step_def ex_name_score3 ex_no_phone ex_client_def
      Let_def)

lemma ex_match_two_words:
  "find_best_match True (PStr (ascii ''Abcdefghix Yz'')) (PStr [])
     [(ascii ''abcdefghix'', ex_client)] (7 / 10)
   = Some \<lparr>m_db_id = ascii ''DB-0001'', db_name = PStr (ascii ''Abcdefghix''),
       db_name_norm = ascii ''abcdefghix'', db_phone = ascii ''77001234567'', score = 95 / 100,
       m_total_visits = 0, m_doctors = {}, m_visits = [], phone_match = False\<rparr>"
  by (simp add: find_best_match_def best_match_step_def ex_name_score2 ex_no_phone ex_client_def
      Let_def)

lemma ex_words: "py_split (ascii ''Abcdefghij'') = [ascii ''Abcdefghij'']"
  "py_split (ascii ''Abcdefghix Yz'') = [ascii ''Abcdefghix'', ascii ''Yz'']"
  by (simp_all add: str_eval)

lemma ex_names: "ascii ''Abcdefghij'' \<noteq> ascii ''nan''" "ascii ''Qrstuvw'' \<noteq> ascii ''nan''"
  "ascii ''Abcdefghix Yz'' \<noteq> ascii ''nan''"
  by (simp_all add: ascii_def)

theorem verify_row_status_witness:
  "(\<exists>m. verify_row True MIN_FIO_WORDS_FOR_CONFIDENT_MATCH (ascii ''Abcdefghij'') []
          [(ascii ''abcdefghix'', ex_client)] (7 / 10) = Some (STATUS_DB_MAYBE, Some m) \<and>
        score m = 9 / 10 \<and> \<not> phone_match m) \<and>
   (\<exists>m. verify_row True MIN_FIO_WORDS_FOR_CONFIDENT_MATCH (ascii ''Abcdefghij'')
          (ascii ''8 (700) 123-45-67'') [(ascii ''abcdefghix'', ex_client)] (7 / 10)
        = Some (STATUS_DB_FOUND, Some m) \<and> phone_match m) \<and>
   (\<exists>m. verify_row True MIN_FIO_WORDS_FOR_CONFIDENT_MATCH (ascii ''Abcdefghix Yz'') []
          [(ascii ''abcdefghix'', ex_client)] (7 / 10) = Some (STATUS_DB_FOUND, Some m) \<and>
        score m = 95 / 100 \<and> \<not> phone_match m) \<and>
   verify_row True MIN_FIO_WORDS_FOR_CONFIDENT_MATCH (ascii ''Qrstuvw'') []
     [(ascii ''abcdefghix'', ex_client)] (7 / 10) = Some (STATUS_DB_NOT_FOUND, None) \<and>
   verify_row True MIN_FIO_WORDS_FOR_CONFIDENT_MATCH (ascii ''nan'') []
     [(ascii ''abcdefghix'', ex_client)] (7 / 10) = None"
proof -
  let ?idx = "[(ascii ''abcdefghix'', ex_client)]"
  from verify_row_status [of "ascii ''Abcdefghij''" True "[]" ?idx "7 / 10"]
  have 1: "verify_row True MIN_FIO_WORDS_FOR_CONFIDENT_MATCH (ascii ''Abcdefghij'') [] ?idx (7 / 10)
      = Some (STATUS_DB_MAYBE, Some \<lparr>m_db_id = ascii ''DB-0001'', db_name = PStr (ascii ''Abcdefghix''),
       db_name_norm = ascii ''abcdefghix'', db_phone = ascii ''77001234567'', score = 9 / 10,
       m_total_visits = 0, m_doctors = {}, m_visits = [], phone_match = False\<rparr>)"
    by (auto simp: ex_match_no_phone ex_words ex_names)
  from verify_row_status [of "ascii ''Abcdefghij''" True "ascii ''8 (700) 123-45-67''" ?idx "7 / 10"]
  have 2: "verify_row True MIN_FIO_WORDS_FOR_CONFIDENT_MATCH (ascii ''Abcdefghij'')
      (ascii ''8 (700) 123-45-67'') ?idx (7 / 10)
      = Some (STATUS_DB_FOUND, Some \<lparr>m_db_id = ascii ''DB-0001'', db_name = PStr (ascii ''Abcdefghix''),
       db_name_norm = ascii ''abcdefghix'', db_phone = ascii ''77001234567'', score = 1,
       m_total_visits = 0, m_doctors = {}, m_visits = [], phone_match = True\<rparr>)"
    by (auto simp: ex_match_phone ex_words ex_names)
  from verify_row_status [of "ascii ''Qrstuvw''" True "[]" ?idx "7 / 10"]
  have 3: "verify_row True MIN_FIO_WORDS_FOR_CONFIDENT_MATCH (ascii ''Qrstuvw'') [] ?idx (7 / 10)
      = Some (STATUS_DB_NOT_FOUND, None)"
    by (auto simp: ex_no_match ex_names)
  from verify_row_status [of "ascii ''Abcdefghix Yz''" True "[]" ?idx "7 / 10"]
  have 5: "verify_row True MIN_FIO_WORDS_FOR_CONFIDENT_MATCH (ascii ''Abcdefghix Yz'') [] ?idx (7 / 10)
      = Some (STATUS_DB_FOUND, Some \<lparr>m_db_id = ascii ''DB-0001'', db_name = PStr (ascii ''Abcdefghix''),
       db_name_norm = ascii ''abcdefghix'', db_phone = ascii ''77001234567'', score = 95 / 100,
       m_total_visits = 0, m_doctors = {}, m_visits = [], phone_match = False\<rparr>)"
    by (auto simp: ex_match_two_words ex_words ex_names)
  from verify_row_status [of "ascii ''nan''" True "[]" ?idx "7 / 10"]
  have 4: "verify_row True MIN_FIO_WORDS_FOR_CONFIDENT_MATCH (ascii ''nan'') [] ?idx (7 / 10) = None"
    by simp
  from 1 2 3 4 5 show ?thesis by simp
qed

text \<open>
  C6. The visits of a client are sorted before the client gets its id, and the sort
  raises \<open>TypeError\<close> when the client has a row without a date and a row with one: the
  key of the first is a time-zone naive timestamp, the dates that \<open>load_db\<close> delivers
  are aware. Then no client gets an id. On every other registry the id of a normalised
  name depends on the set of normalised names only: reordering the rows changes no id,
  and the ids are \<open>DB-0001\<close>, \<open>DB-0002\<close>, ... given to the distinct non-empty names in
  sorted order. Reordering the rows does not change whether the sort raises either.
\<close>

theorem build_db_client_index_mixed_dates:
  "build_db_client_index rows_nat = Inl TypeError \<and>
   (mset rows' = mset rows \<longrightarrow>
      (mixed_dates rows \<longrightarrow>
         build_db_client_index rows = Inl TypeError \<and>
         build_db_client_index rows' = Inl TypeError) \<and>
      (\<not> mixed_dates rows \<longrightarrow>
         (\<exists>index index'.
            build_db_client_index rows = Inr index \<and> build_db_client_index rows' = Inr index' \<and>
            (\<forall>name. db_id_of index' name = db_id_of index name \<and>
                    db_id_of index name =
                      map_of (id_table (sorted_list_of_set (registry_names rows))) name))))"
proof -
  have nat: "build_db_client_index rows_nat = Inl TypeError"
    using build_db_client_index_cases [of rows_nat] mixed_nat by simp
  have perm: "mixed_dates rows' = mixed_dates rows \<and> registry_names rows' = registry_names rows"
    if "mset rows' = mset rows"
  proof -
    from that have "set rows' = set rows" by (rule mset_eq_setD)
    then show ?thesis by (simp add: mixed_dates_def registry_names_def)
  qed
  show ?thesis
    using nat perm build_db_client_index_cases [of rows] build_db_client_index_cases [of rows']
    by (cases "mixed_dates rows") auto
qed

theorem build_db_client_index_mixed_dates_witness:
  "mset rows_b = mset rows_a \<and> \<not> mixed_dates rows_a \<and>
   (\<exists>index index'.
      build_db_client_index rows_a = Inr index \<and> build_db_client_index rows_b = Inr index' \<and>
      db_id_of index (ascii ''ivanova anna'') = Some (ascii ''DB-0001'') \<and>
      db_id_of index (ascii ''petrova maria'') = Some (ascii ''DB-0002'') \<and>
      db_id_of index' (ascii ''ivanova anna'') = Some (ascii ''DB-0001'') \<and>
      db_id_of index' (ascii ''petrova maria'') = Some (ascii ''DB-0002'')) \<and>
   mixed_dates rows_nat \<and> build_db_client_index rows_nat = Inl TypeError"
proof -
  from build_db_client_index_mixed_dates [of rows_b rows_a] perm_ab not_mixed_a
  obtain index index' where
    r: "build_db_client_index rows_a = Inr index" "build_db_client_index rows_b = Inr index'"
    and e: "\<forall>name. db_id_of index' name = db_id_of index name"
    by blast
  from r(1) ids_a have
    "db_id_of index (ascii ''ivanova anna'') = Some (ascii ''DB-0001'')"
    "db_id_of index (ascii ''petrova maria'') = Some (ascii ''DB-0002'')" by auto
  with r e show ?thesis
    using perm_ab not_mixed_a mixed_nat build_db_client_index_mixed_dates [of rows_b rows_a]
    by auto
qed

text \<open>
  C1. \<open>group_by_client\<close> raises \<open>AttributeError\<close> on a batch with a page whose payload
  has \<open>null\<close> (or a number, or a list) under \<open>phone\<close> or \<open>iin\<close> next to a name: no
  cluster is returned and every page of the batch is lost. Whenever it returns, every page
  of the batch is in exactly one cluster: the pages of the returned clusters are, as a
  multiset, the pages of the batch, so the cluster sizes add up to the size of the batch,
  and a batch without repeated pages gives clusters without a page in common; pages with
  no identifier and pages of type \<open>error\<close> are among them. It returns on every batch
  whose payloads hold strings (or nothing) under \<open>fio\<close>, \<open>phone\<close> and \<open>iin\<close>.
\<close>

theorem group_by_client_null_identifier:
  "group_by_client fr rf threshold [null_phone] = Inl AttributeError \<and>
   (group_by_client fr rf threshold results = Inr clients \<longrightarrow>
      mset (all_pages clients) = mset results \<and>
      sum_list (map (\<lambda>kc. length (pages (snd kc))) clients) = length results \<and>
      (distinct results \<longrightarrow> distinct (all_pages clients))) \<and>
   ((\<forall>r \<in> set results. str_payload (data r)) \<longrightarrow>
      (\<exists>clients. group_by_client fr rf threshold results = Inr clients))"
proof -
  have kept: "mset (all_pages clients) = mset results \<and>
      sum_list (map (\<lambda>kc. length (pages (snd kc))) clients) = length results \<and>
      (distinct results \<longrightarrow> distinct (all_pages clients))"
    if r: "group_by_client fr rf threshold results = Inr clients"
  proof -
    have m: "mset (all_pages clients) = mset results" using r by (rule group_by_client_kept)
    then have "length (all_pages clients) = length results" by (metis size_mset)
    then have s: "sum_list (map (\<lambda>kc. length (pages (snd kc))) clients) = length results"
      by (simp add: all_pages_def length_concat comp_def)
    from m s show ?thesis by (metis mset_eq_imp_distinct_iff)
  qed
  show ?thesis
    using kept group_by_client_returns [of results fr rf threshold]
    by (simp add: null_phone_raises)
qed

theorem group_by_client_null_identifier_witness:
  "str_payload (data proc) \<and> str_payload (data blank) \<and> str_payload (data front) \<and>
   str_payload (data front2) \<and>
   group_by_client (\<lambda>x. []) None (75 / 100) example_batch
     = Inr [(ascii ''client_1'', anna [front, front2, proc, blank])] \<and>
   mset (all_pages [(ascii ''client_1'', anna [front, front2, proc, blank])]) = mset example_batch \<and>
   sum_list (map (\<lambda>kc. length (pages (snd kc)))
     [(ascii ''client_1'', anna [front, front2, proc, blank])]) = 4 \<and>
   distinct example_batch \<and>
   distinct (all_pages [(ascii ''client_1'', anna [front, front2, proc, blank])])"
proof -
  have s: "\<forall>r \<in> set example_batch. str_payload (data r)"
    by (simp add: example_batch_def str_payload_examples)
  show ?thesis
    using group_by_client_null_identifier [of "\<lambda>x. []" None "75 / 100" example_batch
        "[(ascii ''client_1'', anna [front, front2, proc, blank])]"]
      grouped_example [of "\<lambda>x. []"] distinct_example_batch s
    by (simp add: example_batch_def)
qed

text \<open>
  C8. \<open>find_matching_client\<close> raises \<open>AttributeError\<close> when the phone of the page is
  \<open>null\<close>, also when the national id of the page is the one of the first cluster. When
  the phone and the national id of the page are strings, the cluster the scan has reached
  (no earlier cluster matched or raised) is returned whatever the names, the threshold and
  the similarity backend, if its national id equals the page's, both non-empty once
  spaces are removed, or if its phone has the same last 7 characters as the page's phone
  of at least 7 (after removing spaces, \<open>-\<close> and \<open>+\<close>).
\<close>

theorem find_matching_client_exact_identifier:
  "find_matching_client rf (extract_identifiers fr null_phone)
     [(ascii ''client_1'', example_client ''Petrova Maria'' [] ''900101300123'')] threshold
     = Inl AttributeError \<and>
   (((ids_iin ids = JStr n \<and> cl_iin c = JStr m \<and> strip_spaces n \<noteq> [] \<and>
        strip_spaces n = strip_spaces m) \<or>
     (ids_phone ids = JStr p \<and> cl_phone c = JStr q \<and> 7 \<le> length (clean_phone p) \<and>
        py_last_n 7 (clean_phone p) = py_last_n 7 (clean_phone q) \<and>
        (is_str (cl_iin c) \<or> \<not> json_truthy (cl_iin c)))) \<and>
    find_matching_client rf ids earlier threshold = Inr None \<longrightarrow>
    find_matching_client rf ids (earlier @ (k, c) # later) threshold = Inr (Some k))"
  using find_matching_client_exact [of ids n c m p q rf earlier threshold k later]
  by (auto simp: ids_null_phone find_matching_client_def as_str_def)

theorem find_matching_client_exact_identifier_witness:
  "find_matching_client None (page_ids ''Ivanova Anna'' [] ''9001 0130 0123'')
     [(ascii ''client_1'', example_client ''Petrova Maria'' [] ''900101300123'')] (75 / 100)
     = Inr (Some (ascii ''client_1'')) \<and>
   find_matching_client None (page_ids ''Ivanova Anna'' ''8 700 123-45-67'' [])
     [(ascii ''client_1'', example_client ''Petrova Maria'' ''+7 (700) 1234567'' [])] (75 / 100)
     = Inr (Some (ascii ''client_1'')) \<and>
   fuzzy_match_ocr None (JStr (ascii ''Ivanova Anna'')) (JStr (ascii ''Petrova Maria'')) = Inr (12 / 25) \<and>
   (12 / 25 :: rat) < 75 / 100"
proof -
  have 1: "ids_iin (page_ids ''Ivanova Anna'' [] ''9001 0130 0123'') = JStr (ascii ''9001 0130 0123'') \<and>
      cl_iin (example_client ''Petrova Maria'' [] ''900101300123'') = JStr (ascii ''900101300123'') \<and>
      strip_spaces (ascii ''9001 0130 0123'') \<noteq> [] \<and>
      strip_spaces (ascii ''9001 0130 0123'') = strip_spaces (ascii ''900101300123'')"
    by (simp add: page_ids_def example_client_def strip_iin)
  have 2: "ids_phone (page_ids ''Ivanova Anna'' ''8 700 123-45-67'' []) = JStr (ascii ''8 700 123-45-67'') \<and>
      cl_phone (example_client ''Petrova Maria'' ''+7 (700) 1234567'' []) = JStr (ascii ''+7 (700) 1234567'') \<and>
      7 \<le> length (clean_phone (ascii ''8 700 123-45-67'')) \<and>
      py_last_n 7 (clean_phone (ascii ''8 700 123-45-67'')) = py_last_n 7 (clean_phone (ascii ''+7 (700) 1234567'')) \<and>
      (is_str (cl_iin (example_client ''Petrova Maria'' ''+7 (700) 1234567'' [])) \<or>
       \<not> json_truthy (cl_iin (example_client ''Petrova Maria'' ''+7 (700) 1234567'' [])))"
    by (simp add: page_ids_def example_client_def clean_phones) (simp add: py_last_n_def ascii_def)
  have e: "find_matching_client None (page_ids a b d) [] (75 / 100) = Inr None" for a b d
    by (simp add: page_ids_def find_empty)
  have r1: "find_matching_client None (page_ids ''Ivanova Anna'' [] ''9001 0130 0123'')
      ([] @ (ascii ''client_1'', example_client ''Petrova Maria'' [] ''900101300123'') # []) (75 / 100)
      = Inr (Some (ascii ''client_1''))"
    using find_matching_client_exact_identifier [of None "\<lambda>x. []" "75 / 100"
        "page_ids ''Ivanova Anna'' [] ''9001 0130 0123''" "ascii ''9001 0130 0123''"
        "example_client ''Petrova Maria'' [] ''900101300123''" "ascii ''900101300123''" "[]" "[]" "[]"
        "ascii ''client_1''" "[]"] 1 e
    by blast
  have r2: "find_matching_client None (page_ids ''Ivanova Anna'' ''8 700 123-45-67'' [])
      ([] @ (ascii ''client_1'', example_client ''Petrova Maria'' ''+7 (700) 1234567'' []) # []) (75 / 100)
      = Inr (Some (ascii ''client_1''))"
    using find_matching_client_exact_identifier [of None "\<lambda>x. []" "75 / 100"
        "page_ids ''Ivanova Anna'' ''8 700 123-45-67'' []" "[]"
        "example_client ''Petrova Maria'' ''+7 (700) 1234567'' []" "[]" "ascii ''8 700 123-45-67''"
        "ascii ''+7 (700) 1234567''" "[]" "ascii ''client_1''" "[]"] 2 e
    by blast
  from r1 r2 show ?thesis by (simp add: names_differ)
qed

text \<open>
  C9. \<open>deduplicate_pages\<close> leaves the cluster \<open>_unmatched\<close> as it is and takes from every
  other cluster the pages that \<open>find_duplicates\<close> marks. A duplicate pair that the loop
  compares marks the page with the strictly shorter text, and the later page when the
  lengths are equal. So every marked page loses against another page of its cluster, of
  two pages that are a duplicate pair at least one is marked, and the first of the pages
  with the longest text is never marked. A cluster of two duplicate pages keeps the one
  with the longer text, or else the first; two pages with the same (existing) perceptual
  hash and the same text leave the first.
\<close>

theorem deduplicate_pages_keeps_longer:
  "length (deduplicate_pages env grouped) = length grouped \<and>
   (\<forall>idx < length grouped.
      deduplicate_pages env grouped ! idx =
        (if fst (grouped ! idx) = ascii ''_unmatched'' then grouped ! idx
         else (fst (grouped ! idx),
               (snd (grouped ! idx))\<lparr>pages := dedup_pages env (pages (snd (grouped ! idx)))\<rparr>))) \<and>
   dedup_pages env pgs =
     map ((!) pgs) (filter (\<lambda>i. i \<notin> find_duplicates env pgs) [0..<length pgs]) \<and>
   find_duplicates env pgs \<subseteq> {..<length pgs} \<and>
   (\<forall>k \<in> find_duplicates env pgs. \<exists>m. loses env pgs k m) \<and>
   (\<forall>i j. i < j \<and> j < length pgs \<and> dup env pgs i j \<longrightarrow>
      i \<in> find_duplicates env pgs \<or> j \<in> find_duplicates env pgs) \<and>
   (\<forall>i < length pgs.
      (\<forall>j < length pgs. length (ocr_text (pgs ! j)) \<le> length (ocr_text (pgs ! i))) \<and>
      (\<forall>j < i. length (ocr_text (pgs ! j)) < length (ocr_text (pgs ! i))) \<longrightarrow>
      i \<notin> find_duplicates env pgs) \<and>
   (i < j \<and> j < length pgs \<and> j \<notin> to_remove \<and> dup env pgs i j \<longrightarrow>
      compare_pair env pgs (map (page_hash env) pgs) i to_remove j =
        insert (if length (ocr_text (pgs ! i)) < length (ocr_text (pgs ! j)) then i else j)
          to_remove) \<and>
   (is_duplicate env (page_hash env p) (page_hash env q) p q \<longrightarrow>
      dedup_pages env [p, q] = [if length (ocr_text p) < length (ocr_text q) then q else p]) \<and>
   (page_hash env p = page_hash env q \<and> page_hash env p \<noteq> [] \<and> ocr_text p = ocr_text q \<longrightarrow>
      dedup_pages env [p, q] = [p])"
proof -
  have 1: "length (deduplicate_pages env grouped) = length grouped"
    by (simp add: deduplicate_pages_def)
  have 2: "\<forall>idx < length grouped.
      deduplicate_pages env grouped ! idx =
        (if fst (grouped ! idx) = ascii ''_unmatched'' then grouped ! idx
         else (fst (grouped ! idx),
               (snd (grouped ! idx))\<lparr>pages := dedup_pages env (pages (snd (grouped ! idx)))\<rparr>))"
    by (simp add: deduplicate_pages_def dedup_pages_short)
  have 7: "i \<notin> find_duplicates env pgs"
    if "i < length pgs" "\<forall>j < length pgs. length (ocr_text (pgs ! j)) \<le> length (ocr_text (pgs ! i))"
      "\<forall>j < i. length (ocr_text (pgs ! j)) < length (ocr_text (pgs ! i))" for i
  proof
    assume "i \<in> find_duplicates env pgs"
    then obtain m where "loses env pgs i m" using find_duplicates_props [of env pgs] by blast
    then show False using that by (auto simp: loses_def not_less [symmetric] dest: spec [of _ m])
  qed
  have 8: "i < j \<and> j < length pgs \<and> j \<notin> to_remove \<and> dup env pgs i j \<longrightarrow>
      compare_pair env pgs (map (page_hash env) pgs) i to_remove j =
        insert (if length (ocr_text (pgs ! i)) < length (ocr_text (pgs ! j)) then i else j)
          to_remove"
    by (simp add: compare_pair_cases)
  have 9: "is_duplicate env (page_hash env p) (page_hash env q) p q \<longrightarrow>
      dedup_pages env [p, q] = [if length (ocr_text p) < length (ocr_text q) then q else p]"
    by (simp add: dedup_pages_two)
  have 10: "page_hash env p = page_hash env q \<and> page_hash env p \<noteq> [] \<and> ocr_text p = ocr_text q \<longrightarrow>
      dedup_pages env [p, q] = [p]"
    by (auto simp: dedup_pages_two is_duplicate_same_hash)
  from 1 2 dedup_pages_eq [of env pgs] find_duplicates_props [of env pgs] 7 8 9 10
  show ?thesis by blast
qed

theorem deduplicate_pages_keeps_longer_witness:
  "deduplicate_pages test_env test_grouped =
     [(ascii ''_unmatched'',
       \<lparr>cl_name = JStr [9888], cl_phone = JStr [], cl_iin = JStr [],
        pages = [test_page ''a.jpg'' ''text a'', test_page ''b.jpg'' ''text b'']\<rparr>),
      (ascii ''client_1'',
       \<lparr>cl_name = JStr (ascii ''Test''), cl_phone = JStr [], cl_iin = JStr [],
        pages = [test_page ''c.jpg'' ''same'']\<rparr>)] \<and>
   dedup_pages example_env [page_a, page_b] = [page_b] \<and>
   dedup_pages example_env [page_a, page_a2] = [page_a]"
proof -
  note t = deduplicate_pages_keeps_longer [of test_env test_grouped "[]" 0 0 "{}"
      "test_page ''c.jpg'' ''same''" "test_page ''d.jpg'' ''same''"]
  have d: "is_duplicate test_env (page_hash test_env (test_page ''c.jpg'' ''same''))
      (page_hash test_env (test_page ''d.jpg'' ''same''))
      (test_page ''c.jpg'' ''same'') (test_page ''d.jpg'' ''same'')"
    by (simp add: is_duplicate_def test_page_def test_env_def page_hash_def text_similarity_def)
  have two: "dedup_pages test_env [test_page ''c.jpg'' ''same'', test_page ''d.jpg'' ''same'']
      = [test_page ''c.jpg'' ''same'']"
    using t d by (simp add: test_page_def)
  have l: "length (deduplicate_pages test_env test_grouped) = 2"
    using t by (simp add: test_grouped_def)
  have k: "ascii ''client_1'' \<noteq> ascii ''_unmatched''" by (simp add: ascii_def)
  have n0: "deduplicate_pages test_env test_grouped ! 0 = test_grouped ! 0"
    using t by (simp add: test_grouped_def)
  have n1: "deduplicate_pages test_env test_grouped ! 1 =
      (ascii ''client_1'',
       \<lparr>cl_name = JStr (ascii ''Test''), cl_phone = JStr [], cl_iin = JStr [],
        pages = [test_page ''c.jpg'' ''same'']\<rparr>)"
    using conjunct1 [OF conjunct2 [OF t]] two k by (simp add: test_grouped_def)
  have r: "deduplicate_pages test_env test_grouped =
     [deduplicate_pages test_env test_grouped ! 0, deduplicate_pages test_env test_grouped ! 1]"
    using l by (metis (no_types) One_nat_def Suc_1 length_0_conv length_Suc_conv nth_Cons_0 nth_Cons_Suc)
  have a: "dedup_pages example_env [page_a, page_b] = [page_b]"
    using deduplicate_pages_keeps_longer [of example_env "[]" "[]" 0 0 "{}" page_a page_b] dup_ab
    by (simp add: example_lengths)
  have h: "page_hash example_env page_a \<noteq> []" by (simp add: example_hashes ascii_def)
  have tx: "ocr_text page_a = ocr_text page_a2"
    by (simp add: page_a_def page_a2_def example_page_def)
  have b: "dedup_pages example_env [page_a, page_a2] = [page_a]"
    using deduplicate_pages_keeps_longer [of example_env "[]" "[]" 0 0 "{}" page_a page_a2] h tx
    by (simp add: example_hashes)
  from r n0 n1 a b show ?thesis by (simp add: test_grouped_def)
qed

text \<open>
  C3. The removal set does not keep a marked page out of later comparisons: when the page
  \<open>i\<close> of the outer loop is marked inside its own inner loop, the loop goes on comparing
  it. Here page 0 is marked against page 1, is still compared with page 2 and marks it;
  pages 1 and 2 are not duplicates of each other, and only page 1 is left.
\<close>

theorem deduplicate_pages_compares_removed_page:
  "compare_pair example_env [page_a, page_b, page_c]
     (map (page_hash example_env) [page_a, page_b, page_c]) 0 {} 1 = {0} \<and>
   compare_pair example_env [page_a, page_b, page_c]
     (map (page_hash example_env) [page_a, page_b, page_c]) 0 {0} 2 = {0, 2} \<and>
   \<not> is_duplicate example_env (page_hash example_env page_b) (page_hash example_env page_c)
       page_b page_c \<and>
   find_duplicates example_env [page_a, page_b, page_c] = {0, 2} \<and>
   dedup_pages example_env [page_a, page_b, page_c] = [page_b]"
proof -
  let ?pgs = "[page_a, page_b, page_c]"
  let ?hs = "map (page_hash example_env) ?pgs"
  have 1: "compare_pair example_env ?pgs ?hs 0 {} 1 = {0}"
    using dup_ab by (simp add: compare_pair_def Let_def example_lengths)
  have 2: "compare_pair example_env ?pgs ?hs 0 {0} 2 = {0, 2}"
    using dup_ac by (auto simp: compare_pair_def Let_def example_lengths)
  have s0: "scan_from example_env ?pgs ?hs {} 0 = {0, 2}"
    using 1 2 by (simp add: scan_from_def upt_conv_Cons eval_nat_numeral)
  have s1: "scan_from example_env ?pgs ?hs {0, 2} 1 = {0, 2}"
    by (simp add: scan_from_def upt_conv_Cons compare_pair_def eval_nat_numeral)
  have s2: "scan_from example_env ?pgs ?hs {0, 2} 2 = {0, 2}"
    by (simp add: scan_from_def)
  have f: "find_duplicates example_env ?pgs = {0, 2}"
    unfolding find_duplicates_def using s0 s1 s2 by (simp add: upt_conv_Cons eval_nat_numeral)
  have "dedup_pages example_env ?pgs = [page_b]"
    by (simp add: dedup_pages_def f Let_def)
  with 1 2 f not_dup_bc show ?thesis by simp
qed

theorem deduplicate_pages_compares_removed_page_witness:
  "0 \<in> {0 :: nat} \<and>
   2 \<in> compare_pair example_env [page_a, page_b, page_c]
     (map (page_hash example_env) [page_a, page_b, page_c]) 0 {0} 2 \<and>
   page_c \<notin> set (dedup_pages example_env [page_a, page_b, page_c])"
proof -
  have "page_c \<noteq> page_b" by (simp add: page_b_def page_c_def example_page_def ascii_def)
  then show ?thesis using deduplicate_pages_compares_removed_page by simp
qed

end
